theory Spec2Isabelle
  imports Main "HOL-Library.Sublist"
begin

section \<open>Edit sessions: the data model\<close>

text \<open>
  The embedding follows \<^verbatim>\<open>editSessions.contribution.ts\<close>. A URI is used by the
  file service, by \<^verbatim>\<open>joinPath\<close> and in the local changed-resource set through its
  string form (\<^verbatim>\<open>uri.toString()\<close>), so \<open>uri\<close> is that string. File contents are
  byte strings, a reference of the remote store is a string.
\<close>

type_synonym uri = string
type_synonym bytes = string
type_synonym ref = string

text \<open>
  \<^verbatim>\<open>ChangeType\<close> has the enumerators \<^verbatim>\<open>Addition\<close> and \<^verbatim>\<open>Deletion\<close>. A session is
  read from the remote store, so at run time the field can hold any other value; the
  \<^verbatim>\<open>default:\<close> branch of \<^verbatim>\<open>willChangeLocalContents\<close> is written for that value, here
  \<open>OtherChangeType\<close>.
\<close>

datatype ChangeType = Addition | Deletion | OtherChangeType int

datatype FileType = File

record Change =
  type :: ChangeType
  fileType :: FileType
  relativeFilePath :: string
  contents :: "string option"

record Folder =
  name :: string
  canonicalIdentity :: "string option"
  workingChanges :: "Change list"

record EditSession =
  version :: int
  folders :: "Folder list"

section \<open>The services the contribution calls\<close>

text \<open>
  A locally open workspace folder (\<^verbatim>\<open>IWorkspaceFolder\<close>): its \<^verbatim>\<open>name\<close> and its
  \<^verbatim>\<open>uri\<close>.
\<close>

record IWorkspaceFolder =
  folderName :: string
  folderUri :: uri

datatype WorkbenchState = EMPTY | FOLDER | WORKSPACE

text \<open>
  The verdict of the identity provider; the source's enumerator \<^verbatim>\<open>None\<close> is
  \<open>NoMatch\<close> here, and the provider may also answer \<^verbatim>\<open>undefined\<close>.
\<close>

datatype EditSessionIdentityMatch = Complete | Partial | NoMatch

text \<open>
  \<^verbatim>\<open>getChangedResources\<close> collects \<^verbatim>\<open>resource.sourceUri\<close> in a \<^verbatim>\<open>Set<URI>\<close>. A URI is
  an object there, and a JavaScript \<^verbatim>\<open>Set\<close> compares objects by reference, so the
  resources of a repository are given by the addresses of their \<^verbatim>\<open>sourceUri\<close> objects;
  \<open>uriObject\<close> below is the heap that maps an address to the URI stored there. The
  \<^verbatim>\<open>rootUri\<close> of the provider is only ever read, so it is kept by value.
\<close>

type_synonym addr = nat

record ISCMRepository =
  rootUri :: "uri option"
  groups :: "addr list list"

datatype error =
    FileOperationError uri
  | UnhandledChangeType
  | DecodeError
  | StoreTooLarge
  | StoreError
  | OtherError

text \<open>What the file service holds at a URI.\<close>

datatype entry = RegularFile bytes | Directory

text \<open>
  Everything the contribution reads from its collaborators and does not change. The
  functions of modules outside this file (\<^verbatim>\<open>sha1Hex\<close>, \<^verbatim>\<open>encodeBase64\<close>,
  \<^verbatim>\<open>decodeEditSessionFileContent\<close>, \<^verbatim>\<open>joinPath\<close>, \<^verbatim>\<open>relativePath\<close>), the constant
  \<^verbatim>\<open>EditSessionSchemaVersion\<close> and the answers of the external services are
  parameters. \<open>sha1Hex\<close> and \<open>decodeEditSessionFileContent\<close> take the \<^verbatim>\<open>contents\<close> field
  as it is, \<^verbatim>\<open>undefined\<close> included; a decoder that throws answers \<open>None\<close>.
  \<open>dialogChoice\<close> is the button the user presses in the overwrite dialog (0 is Cancel),
  \<open>writeFails\<close> and \<open>delFails\<close> are the URIs at which the file service rejects a
  write or a delete, \<open>saveAll\<close> is what saving the open editors does to the files,
  \<open>storeWrite\<close> is the answer of the remote store to a write: the reference, or
  \<open>StoreTooLarge\<close> or \<open>StoreError\<close> for a \<^verbatim>\<open>UserDataSyncStoreError\<close> with and without the
  code \<^verbatim>\<open>TooLarge\<close>, or another error.
\<close>

record services =
  workbenchState :: WorkbenchState
  workspaceFolders :: "IWorkspaceFolder list"
  getWorkspaceFolder :: "uri \<Rightarrow> IWorkspaceFolder option"
  getEditSessionIdentifier :: "IWorkspaceFolder \<Rightarrow> string option"
  provideEditSessionIdentityMatch ::
    "IWorkspaceFolder \<Rightarrow> string \<Rightarrow> string \<Rightarrow> EditSessionIdentityMatch option"
  partialMatchesEnabled :: bool
  repositories :: "ISCMRepository list"
  uriObject :: "addr \<Rightarrow> uri"
  EditSessionSchemaVersion :: int
  initialize :: bool
  dialogChoice :: "uri list \<Rightarrow> nat"
  sha1Hex :: "string option \<Rightarrow> string"
  encodeBase64 :: "bytes \<Rightarrow> string"
  decodeEditSessionFileContent :: "int \<Rightarrow> string option \<Rightarrow> bytes option"
  joinPath :: "uri \<Rightarrow> string \<Rightarrow> uri"
  relativePath :: "uri \<Rightarrow> uri \<Rightarrow> string option"
  uriPath :: "uri \<Rightarrow> string"
  writeFails :: "uri \<Rightarrow> bool"
  delFails :: "uri \<Rightarrow> bool"
  saveAll :: "(uri \<Rightarrow> entry option) \<Rightarrow> (uri \<Rightarrow> entry option)"
  storeWrite :: "EditSession \<Rightarrow> error + ref"
  storeDeleteFails :: "ref \<Rightarrow> bool"

subsection \<open>The state: files, the remote store, and what the user sees\<close>

text \<open>
  Every call that leaves the contribution is recorded, in order: log lines and
  notifications (by their \<^verbatim>\<open>localize\<close> key or a short form of the message), the
  prompt for a partial match, the overwrite dialog, and the three mutations of a resume:
  \<^verbatim>\<open>writeFile\<close>, \<^verbatim>\<open>del\<close> and the deletion of the remote session.
\<close>

datatype event =
    LogInfo string
  | LogError string
  | NotifyInfo string
  | NotifyWarn string
  | NotifyError string
  | NotifyPrompt string ref
  | DialogShow "uri list"
  | WriteFile uri bytes
  | DelFile uri
  | StoreDelete ref
  | StoreWrite ref

record world =
  files :: "uri \<Rightarrow> entry option"
  sessions :: "(ref \<times> EditSession) list"
  trace :: "event list"

definition emit :: "event \<Rightarrow> world \<Rightarrow> world" where
  "emit e w = w\<lparr>trace := trace w @ [e]\<rparr>"

fun is_mutation :: "event \<Rightarrow> bool" where
  "is_mutation (WriteFile u b) = True"
| "is_mutation (DelFile u) = True"
| "is_mutation (StoreDelete r) = True"
| "is_mutation (StoreWrite r) = True"
| "is_mutation e = False"

subsection \<open>The file service\<close>

text \<open>
  Modelled from the spec: the file service (\<^verbatim>\<open>IFileService\<close>, implemented outside this
  file), by the interface the specification gives for it: \<^verbatim>\<open>exists\<close>, \<^verbatim>\<open>readFile\<close>,
  \<^verbatim>\<open>writeFile\<close>, \<^verbatim>\<open>delete\<close> and \<^verbatim>\<open>stat(uri).isFile\<close>. \<^verbatim>\<open>exists\<close> never throws;
  \<^verbatim>\<open>readFile\<close> throws unless a regular file is there; \<^verbatim>\<open>stat\<close> throws when nothing is
  there; \<^verbatim>\<open>writeFile\<close> and \<^verbatim>\<open>del\<close> throw where the file service rejects them.
\<close>

definition fs_exists :: "world \<Rightarrow> uri \<Rightarrow> bool" where
  "fs_exists w u = (files w u \<noteq> None)"

definition fs_readFile :: "world \<Rightarrow> uri \<Rightarrow> error + bytes" where
  "fs_readFile w u =
     (case files w u of Some (RegularFile b) \<Rightarrow> Inr b | _ \<Rightarrow> Inl (FileOperationError u))"

definition fs_stat_isFile :: "world \<Rightarrow> uri \<Rightarrow> error + bool" where
  "fs_stat_isFile w u =
     (case files w u of
        None \<Rightarrow> Inl (FileOperationError u)
      | Some (RegularFile b) \<Rightarrow> Inr True
      | Some Directory \<Rightarrow> Inr False)"

definition fs_writeFile :: "services \<Rightarrow> uri \<Rightarrow> bytes \<Rightarrow> world \<Rightarrow> error + world" where
  "fs_writeFile env u b w =
     (if writeFails env u \<or> files w u = Some Directory then Inl (FileOperationError u)
      else Inr (emit (WriteFile u b) (w\<lparr>files := (files w)(u \<mapsto> RegularFile b)\<rparr>)))"

definition fs_del :: "services \<Rightarrow> uri \<Rightarrow> world \<Rightarrow> error + world" where
  "fs_del env u w =
     (if delFails env u \<or> files w u = None then Inl (FileOperationError u)
      else Inr (emit (DelFile u) (w\<lparr>files := (files w)(u := None)\<rparr>)))"

subsection \<open>The remote store\<close>

text \<open>
  Modelled from the spec: the remote session store (\<^verbatim>\<open>IEditSessionsStorageService\<close>,
  implemented outside this file), by the interface the specification gives for it:
  \<^verbatim>\<open>read(reference | none) -> (Session, reference) | absent\<close> and
  \<^verbatim>\<open>delete(reference)\<close>. The store keeps the sessions most recent first;
  \<^verbatim>\<open>read(undefined)\<close> answers the most recent one, \<^verbatim>\<open>read(ref)\<close> the one stored under
  \<open>ref\<close>, each with its reference; \<^verbatim>\<open>delete\<close> removes the session of the reference, or
  throws.
\<close>

definition store_read :: "world \<Rightarrow> ref option \<Rightarrow> (EditSession \<times> ref) option" where
  "store_read w r =
     (case r of
        None \<Rightarrow> (case sessions w of [] \<Rightarrow> None | (r', s) # _ \<Rightarrow> Some (s, r'))
      | Some r' \<Rightarrow> map_option (\<lambda>s. (s, r')) (map_of (sessions w) r'))"

definition store_delete :: "services \<Rightarrow> ref \<Rightarrow> world \<Rightarrow> error + world" where
  "store_delete env r w =
     (if storeDeleteFails env r then Inl StoreError
      else Inr (emit (StoreDelete r) (w\<lparr>sessions := filter (\<lambda>p. fst p \<noteq> r) (sessions w)\<rparr>)))"

section \<open>The conflict check\<close>

text \<open>
  \<^verbatim>\<open>willChangeLocalContents(localChanges, uriWithIncomingChanges, incomingChange)\<close>.
  It reads the file service and changes nothing, so it takes the state and returns its
  verdict or the error it throws.
\<close>

definition willChangeLocalContents ::
  "services \<Rightarrow> world \<Rightarrow> uri set \<Rightarrow> uri \<Rightarrow> Change \<Rightarrow> error + bool" where
  "willChangeLocalContents env w localChanges uriWithIncomingChanges incomingChange =
     (if uriWithIncomingChanges \<notin> localChanges then Inr False
      else
        (case type incomingChange of
           Addition \<Rightarrow>
             (case fs_readFile w uriWithIncomingChanges of
                Inl e \<Rightarrow> Inl e
              | Inr v \<Rightarrow>
                  Inr (sha1Hex env (contents incomingChange)
                         \<noteq> sha1Hex env (Some (encodeBase64 env v))))
         | Deletion \<Rightarrow> Inr (fs_exists w uriWithIncomingChanges)
         | OtherChangeType n \<Rightarrow> Inl UnhandledChangeType))"

section \<open>The changed resources of a repository\<close>

text \<open>
  \<^verbatim>\<open>resources.add(resource.sourceUri)\<close> on a \<^verbatim>\<open>Set<URI>\<close>: the object is added unless
  the very same object is in the set already. A \<^verbatim>\<open>Set\<close> iterates in insertion order,
  so the set is the list of its members in that order.
\<close>

definition set_add :: "addr list \<Rightarrow> addr \<Rightarrow> addr list" where
  "set_add resources a = (if a \<in> set resources then resources else resources @ [a])"

definition getChangedResources :: "ISCMRepository \<Rightarrow> addr list" where
  "getChangedResources repository =
     foldl (\<lambda>resources resourceGroups. foldl set_add resources resourceGroups)
       [] (groups repository)"

text \<open>
  The local changed-resource set that \<^verbatim>\<open>generateChanges\<close> builds for a folder of the
  session: the string forms of the changed resources of every repository whose root lies
  in a workspace folder of the same name as the session's folder.
\<close>

definition repositoryOfFolder :: "services \<Rightarrow> Folder \<Rightarrow> ISCMRepository \<Rightarrow> bool" where
  "repositoryOfFolder env folder repository =
     (case rootUri repository of
        None \<Rightarrow> False
      | Some r \<Rightarrow>
          (case getWorkspaceFolder env r of
             None \<Rightarrow> False
           | Some wsf \<Rightarrow> folderName wsf = name folder))"

definition localChangesOf :: "services \<Rightarrow> Folder \<Rightarrow> uri set" where
  "localChangesOf env folder =
     set (concat (map (\<lambda>repository. map (uriObject env) (getChangedResources repository))
                    (filter (repositoryOfFolder env folder) (repositories env))))"

section \<open>Matching a folder of the session to a local folder\<close>

text \<open>
  The loop over \<^verbatim>\<open>workspaceFolders\<close> that \<^verbatim>\<open>generateChanges\<close> runs when
  \<^verbatim>\<open>folder.canonicalIdentity\<close> is truthy. It returns \<^verbatim>\<open>folderRoot\<close> and the state, in
  which the log lines and the prompts for partial matches are recorded.
\<close>

fun identityScan ::
  "services \<Rightarrow> ref \<Rightarrow> bool \<Rightarrow> string \<Rightarrow> IWorkspaceFolder list \<Rightarrow> world
     \<Rightarrow> IWorkspaceFolder option \<times> world" where
  "identityScan env r force ci [] w = (None, w)"
| "identityScan env r force ci (f # fs) w =
     (let identity = getEditSessionIdentifier env f;
          w1 = emit (LogInfo ''Matching identity against edit session folder identity'') w
      in if identity = Some ci then (Some f, w1)
         else
           (case identity of
              None \<Rightarrow> identityScan env r force ci fs w1
            | Some i \<Rightarrow>
                (case provideEditSessionIdentityMatch env f i ci of
                   Some Complete \<Rightarrow> (Some f, w1)
                 | Some Partial \<Rightarrow>
                     if partialMatchesEnabled env then
                       (if \<not> force then
                          identityScan env r force ci fs
                            (emit (NotifyPrompt ''editSessionPartialMatch'' r) w1)
                        else (Some f, w1))
                     else identityScan env r force ci fs w1
                 | _ \<Rightarrow> identityScan env r force ci fs w1)))"

text \<open>
  \<^verbatim>\<open>if (folder.canonicalIdentity) { ... } else { folderRoot = workspaceFolders.find(...) }\<close>.
  The test is JavaScript truthiness: \<^verbatim>\<open>undefined\<close> and the empty string both take the
  \<^verbatim>\<open>else\<close> branch.
\<close>

definition findFolderRoot ::
  "services \<Rightarrow> ref \<Rightarrow> bool \<Rightarrow> Folder \<Rightarrow> world \<Rightarrow> IWorkspaceFolder option \<times> world" where
  "findFolderRoot env r force folder w =
     (case canonicalIdentity folder of
        None \<Rightarrow> (find (\<lambda>f. folderName f = name folder) (workspaceFolders env), w)
      | Some ci \<Rightarrow>
          if ci = [] then (find (\<lambda>f. folderName f = name folder) (workspaceFolders env), w)
          else identityScan env r force ci (workspaceFolders env) w)"

section \<open>generateChanges\<close>

text \<open>A resolved change: \<^verbatim>\<open>{ uri, type, contents }\<close>.\<close>

type_synonym ResolvedChange = "uri \<times> ChangeType \<times> string option"

text \<open>
  The loop over \<^verbatim>\<open>folder.workingChanges\<close>; the pair is \<^verbatim>\<open>changes\<close> and
  \<^verbatim>\<open>conflictingChanges\<close>. An error of the conflict check ends it.
\<close>

fun folderChanges ::
  "services \<Rightarrow> world \<Rightarrow> uri set \<Rightarrow> IWorkspaceFolder \<Rightarrow> Change list
     \<Rightarrow> ResolvedChange list \<times> ResolvedChange list
     \<Rightarrow> error + ResolvedChange list \<times> ResolvedChange list" where
  "folderChanges env w localChanges folderRoot [] acc = Inr acc"
| "folderChanges env w localChanges folderRoot (change # rest) (changes, conflictingChanges) =
     (let uri = joinPath env (folderUri folderRoot) (relativeFilePath change);
          changes' = changes @ [(uri, type change, contents change)]
      in case willChangeLocalContents env w localChanges uri change of
           Inl e \<Rightarrow> Inl e
         | Inr conflict \<Rightarrow>
             folderChanges env w localChanges folderRoot rest
               (changes',
                if conflict then conflictingChanges @ [(uri, type change, contents change)]
                else conflictingChanges))"

text \<open>
  The loop over \<^verbatim>\<open>editSession.folders\<close>. A folder without a local match ends the whole
  function with two empty lists, whatever the earlier folders had collected.
\<close>

fun generateChangesLoop ::
  "services \<Rightarrow> ref \<Rightarrow> bool \<Rightarrow> Folder list \<Rightarrow> ResolvedChange list \<times> ResolvedChange list
     \<Rightarrow> world \<Rightarrow> (error + ResolvedChange list \<times> ResolvedChange list) \<times> world" where
  "generateChangesLoop env r force [] acc w = (Inr acc, w)"
| "generateChangesLoop env r force (folder # rest) acc w =
     (case findFolderRoot env r force folder w of
        (None, w1) \<Rightarrow>
          (Inr ([], []),
           emit (LogInfo ''Skipping applying changes as no matching workspace folder was found'') w1)
      | (Some folderRoot, w1) \<Rightarrow>
          (case folderChanges env w1 (localChangesOf env folder) folderRoot
                  (workingChanges folder) acc of
             Inl e \<Rightarrow> (Inl e, w1)
           | Inr acc' \<Rightarrow> generateChangesLoop env r force rest acc' w1))"

definition generateChanges ::
  "services \<Rightarrow> EditSession \<Rightarrow> ref \<Rightarrow> bool \<Rightarrow> world
     \<Rightarrow> (error + ResolvedChange list \<times> ResolvedChange list) \<times> world" where
  "generateChanges env editSession r force w =
     generateChangesLoop env r force (folders editSession) ([], []) w"

section \<open>resumeEditSession\<close>

text \<open>
  The loop that applies the changes. It returns the error thrown, if any, and the state
  reached: a failure leaves the changes applied before it in place.
\<close>

fun applyChanges ::
  "services \<Rightarrow> int \<Rightarrow> ResolvedChange list \<Rightarrow> world \<Rightarrow> error option \<times> world" where
  "applyChanges env v [] w = (None, w)"
| "applyChanges env v ((uri, ty, cont) # rest) w =
     (case ty of
        Addition \<Rightarrow>
          (case decodeEditSessionFileContent env v cont of
             None \<Rightarrow> (Some DecodeError, w)
           | Some b \<Rightarrow>
               (case fs_writeFile env uri b w of
                  Inl e \<Rightarrow> (Some e, w)
                | Inr w' \<Rightarrow> applyChanges env v rest w'))
      | Deletion \<Rightarrow>
          if fs_exists w uri then
            (case fs_del env uri w of
               Inl e \<Rightarrow> (Some e, w)
             | Inr w' \<Rightarrow> applyChanges env v rest w')
          else applyChanges env v rest w
      | OtherChangeType n \<Rightarrow> applyChanges env v rest w)"

text \<open>The body of the \<^verbatim>\<open>try\<close> block: the error caught, if any, and the state.\<close>

definition resumeBody ::
  "services \<Rightarrow> EditSession \<Rightarrow> ref \<Rightarrow> bool \<Rightarrow> world \<Rightarrow> error option \<times> world" where
  "resumeBody env editSession r force w =
     (case generateChanges env editSession r force w of
        (Inl e, w1) \<Rightarrow> (Some e, w1)
      | (Inr (changes, conflictingChanges), w1) \<Rightarrow>
          if length changes = 0 then (None, w1)
          else
            (let w2 = (if length conflictingChanges > 0
                       then emit (DialogShow (map fst conflictingChanges)) w1 else w1)
             in if length conflictingChanges > 0
                   \<and> dialogChoice env (map fst conflictingChanges) = 0
                then (None, w2)
                else
                  (case applyChanges env (version editSession) changes w2 of
                     (Some e, w3) \<Rightarrow> (Some e, w3)
                   | (None, w3) \<Rightarrow>
                       (let w4 = emit (LogInfo ''Deleting edit session after successfully applying it'') w3
                        in case store_delete env r w4 of
                             Inl e \<Rightarrow> (Some e, w4)
                           | Inr w5 \<Rightarrow> (None, emit (LogInfo ''Deleted edit session'') w5)))))"

text \<open>
  \<^verbatim>\<open>resumeEditSession(ref, silent, force)\<close>; an omitted \<^verbatim>\<open>silent\<close> or \<^verbatim>\<open>force\<close> is
  \<open>False\<close>. The \<^verbatim>\<open>Resume\<close> action of a partial-match prompt starts another resume when
  the user chooses it later; that later call is not part of this one.
\<close>

definition resumeEditSession ::
  "services \<Rightarrow> ref option \<Rightarrow> bool \<Rightarrow> bool \<Rightarrow> world \<Rightarrow> world" where
  "resumeEditSession env r silent force w =
     (if workbenchState env = EMPTY then w
      else
        (let w1 = emit (LogInfo ''Resuming edit session'') w
         in if silent \<and> \<not> initialize env then w1
            else
              (case store_read w1 r of
                 None \<Rightarrow>
                   emit (LogInfo ''Aborting resuming edit session as no edit session content is available'')
                     (if r = None \<and> \<not> silent then emit (NotifyInfo ''no edit session'') w1
                      else if r \<noteq> None
                        then emit (NotifyWarn ''no edit session content for ref'') w1
                      else w1)
               | Some (editSession, r') \<Rightarrow>
                   if version editSession > EditSessionSchemaVersion env
                   then emit (NotifyError ''client too old'') w1
                   else
                     (case resumeBody env editSession r' force w1 of
                        (Some e, w2) \<Rightarrow>
                          emit (NotifyError ''resume failed'')
                            (emit (LogError ''Failed to resume edit session'') w2)
                      | (None, w2) \<Rightarrow> w2))))"

section \<open>storeEditSession\<close>

text \<open>
  The loop over \<^verbatim>\<open>trackedUris\<close>. Its state is \<^verbatim>\<open>name\<close>, \<^verbatim>\<open>workingChanges\<close> and
  \<^verbatim>\<open>hasEdits\<close>. An error of \<^verbatim>\<open>stat\<close> is swallowed by the empty \<^verbatim>\<open>catch\<close>, an error
  of \<^verbatim>\<open>readFile\<close> is not caught.
\<close>

fun trackedUrisLoop ::
  "services \<Rightarrow> uri list \<Rightarrow> string option \<times> Change list \<times> bool \<Rightarrow> world
     \<Rightarrow> (error + string option \<times> Change list \<times> bool) \<times> world" where
  "trackedUrisLoop env [] st w = (Inr st, w)"
| "trackedUrisLoop env (uri # rest) (nm, working, hasEdits) w =
     (case getWorkspaceFolder env uri of
        None \<Rightarrow>
          trackedUrisLoop env rest (nm, working, hasEdits)
            (emit (LogInfo ''Skipping working change as no associated workspace folder was found'') w)
      | Some workspaceFolder \<Rightarrow>
          (let nm' = (case nm of None \<Rightarrow> Some (folderName workspaceFolder) | Some n \<Rightarrow> Some n);
               rel = (case relativePath env (folderUri workspaceFolder) uri of
                        None \<Rightarrow> uriPath env uri
                      | Some p \<Rightarrow> p)
           in if fs_stat_isFile w uri = Inr False
              then trackedUrisLoop env rest (nm', working, hasEdits) w
              else if fs_exists w uri then
                (case fs_readFile w uri of
                   Inl e \<Rightarrow> (Inl e, w)
                 | Inr v \<Rightarrow>
                     trackedUrisLoop env rest
                       (nm',
                        working @
                          [\<lparr>type = Addition, fileType = File, relativeFilePath = rel,
                            contents = Some (encodeBase64 env v)\<rparr>],
                        True) w)
              else
                trackedUrisLoop env rest
                  (nm',
                   working @
                     [\<lparr>type = Deletion, fileType = File, relativeFilePath = rel,
                       contents = None\<rparr>],
                   True) w))"

text \<open>The loop over \<^verbatim>\<open>this.scmService.repositories\<close>: \<^verbatim>\<open>folders\<close> and \<^verbatim>\<open>hasEdits\<close>.\<close>

fun repositoriesLoop ::
  "services \<Rightarrow> ISCMRepository list \<Rightarrow> Folder list \<times> bool \<Rightarrow> world
     \<Rightarrow> (error + Folder list \<times> bool) \<times> world" where
  "repositoriesLoop env [] st w = (Inr st, w)"
| "repositoriesLoop env (repository # rest) (fds, hasEdits) w =
     (let trackedUris = map (uriObject env) (getChangedResources repository);
          workspaceFolder = (case rootUri repository of
                               None \<Rightarrow> None
                             | Some r \<Rightarrow> getWorkspaceFolder env r)
      in case trackedUrisLoop env trackedUris
                (map_option folderName workspaceFolder, [], hasEdits) w of
           (Inl e, w1) \<Rightarrow> (Inl e, w1)
         | (Inr (nm, working, hasEdits'), w1) \<Rightarrow>
             repositoriesLoop env rest
               (fds @
                  [\<lparr>name = (case nm of None \<Rightarrow> [] | Some n \<Rightarrow> n),
                    canonicalIdentity =
                      (case workspaceFolder of
                         None \<Rightarrow> None
                       | Some f \<Rightarrow> getEditSessionIdentifier env f),
                    workingChanges = working\<rparr>],
                hasEdits') w1)"

text \<open>
  \<^verbatim>\<open>storeEditSession(fromStoreCommand)\<close>: the reference returned (\<open>None\<close> for
  \<^verbatim>\<open>undefined\<close>) or the error with which the promise rejects, and the state.
\<close>

definition storeEditSession ::
  "services \<Rightarrow> bool \<Rightarrow> world \<Rightarrow> (error + ref option) \<times> world" where
  "storeEditSession env fromStoreCommand w =
     (case repositoriesLoop env (repositories env) ([], False)
             (w\<lparr>files := saveAll env (files w)\<rparr>) of
        (Inl e, w1) \<Rightarrow> (Inl e, w1)
      | (Inr (fds, hasEdits), w1) \<Rightarrow>
          if \<not> hasEdits then
            (let w2 = emit (LogInfo ''Skipping storing edit session as there are no edits to store'') w1
             in (Inr None,
                 if fromStoreCommand then emit (NotifyInfo ''no edits to store'') w2 else w2))
          else
            (let data = \<lparr>version = 2, folders = fds\<rparr>;
                 w2 = emit (LogInfo ''Storing edit session'') w1
             in case storeWrite env data of
                  Inr r \<Rightarrow>
                    (Inr (Some r),
                     emit (LogInfo ''Stored edit session'')
                       (emit (StoreWrite r) (w2\<lparr>sessions := (r, data) # sessions w2\<rparr>)))
                | Inl e \<Rightarrow>
                    (let w3 = emit (LogError ''Failed to store edit session'') w2
                     in (Inr None,
                         case e of
                           StoreTooLarge \<Rightarrow> emit (NotifyError ''payload too large'') w3
                         | StoreError \<Rightarrow> emit (NotifyError ''payload failed'') w3
                         | _ \<Rightarrow> w3))))"

section \<open>Notions used to state the properties\<close>

text \<open>
  A step from \<open>w\<close> to \<open>w'\<close> is quiet when it leaves the files and the remote store
  as they are and records no mutation: it only logs, notifies or asks.
\<close>

definition quiet :: "world \<Rightarrow> world \<Rightarrow> bool" where
  "quiet w w' = (files w' = files w \<and> sessions w' = sessions w \<and>
     (\<exists>evs. trace w' = trace w @ evs \<and> \<not> list_ex is_mutation evs))"

text \<open>The events of the file service, and a step that only applies changes to files.\<close>

fun is_file_mutation :: "event \<Rightarrow> bool" where
  "is_file_mutation (WriteFile u b) = True"
| "is_file_mutation (DelFile u) = True"
| "is_file_mutation e = False"

definition applying :: "world \<Rightarrow> world \<Rightarrow> bool" where
  "applying w w' = (sessions w' = sessions w \<and>
     (\<exists>evs. trace w' = trace w @ evs \<and> list_all is_file_mutation evs))"

text \<open>
  The events by which \<open>generateChanges\<close> reports: log lines and the prompts for partial
  matches. A step reports when it records such events only.
\<close>

fun is_report :: "event \<Rightarrow> bool" where
  "is_report (LogInfo m) = True"
| "is_report (NotifyPrompt m r) = True"
| "is_report e = False"

definition reports :: "world \<Rightarrow> world \<Rightarrow> bool" where
  "reports w w' = (\<exists>evs. trace w' = trace w @ evs \<and> list_all is_report evs)"

text \<open>What a call recorded: the events of \<open>w'\<close> that \<open>w\<close> did not have yet.\<close>

definition newEvents :: "world \<Rightarrow> world \<Rightarrow> event list" where
  "newEvents w w' = drop (length (trace w)) (trace w')"

text \<open>
  The matching by identity in the specification's words, for comparison with
  \<open>identityScan\<close>: a local folder is accepted when its identity equals the remote
  canonical identity, or the provider classifies the pair as \<open>Complete\<close>, or as
  \<open>Partial\<close> with partial matches enabled and the force flag set. The folder's name
  does not occur.
\<close>

definition identityAccepts :: "services \<Rightarrow> bool \<Rightarrow> string \<Rightarrow> IWorkspaceFolder \<Rightarrow> bool" where
  "identityAccepts env force ci f =
     (case getEditSessionIdentifier env f of
        None \<Rightarrow> False
      | Some i \<Rightarrow>
          i = ci \<or> provideEditSessionIdentityMatch env f i ci = Some Complete
          \<or> (provideEditSessionIdentityMatch env f i ci = Some Partial
              \<and> partialMatchesEnabled env \<and> force))"

text \<open>
  The invariant of the data model, in the specification's words: \<^verbatim>\<open>contents\<close> is present
  if and only if the type is \<^verbatim>\<open>Addition\<close>. \<open>storedFrom\<close> is what the loop of
  \<open>storeEditSession\<close> maintains for the changes it collects from the files \<open>fs\<close>: an
  addition carries the base64 encoding of the contents of a regular file, a deletion
  carries no contents.
\<close>

definition changeInvariant :: "Change \<Rightarrow> bool" where
  "changeInvariant c = ((contents c \<noteq> None) = (type c = Addition))"

definition storedFrom :: "services \<Rightarrow> (uri \<Rightarrow> entry option) \<Rightarrow> Change \<Rightarrow> bool" where
  "storedFrom env fs c =
     (fileType c = File \<and>
      (type c = Addition
         \<and> (\<exists>u v. fs u = Some (RegularFile v) \<and> contents c = Some (encodeBase64 env v))
       \<or> type c = Deletion \<and> contents c = None))"

section \<open>Example inputs\<close>

text \<open>
  One workspace folder \<^verbatim>\<open>p\<close> at \<^verbatim>\<open>/p\<close>, with a repository whose two resource groups
  each hold a resource for the file \<^verbatim>\<open>/p/a\<close>, as two URI objects of equal value. The hash
  and the base64 functions are injective stand-ins. The remote store holds one session
  with an addition for \<^verbatim>\<open>a\<close>; on disk \<^verbatim>\<open>/p/a\<close> has other contents.
\<close>

definition exampleFolder :: IWorkspaceFolder where
  "exampleFolder = \<lparr>folderName = ''p'', folderUri = ''/p''\<rparr>"

definition exampleServices :: services where
  "exampleServices =
     \<lparr>workbenchState = FOLDER,
      workspaceFolders = [exampleFolder],
      getWorkspaceFolder = (\<lambda>u. if take 2 u = ''/p'' then Some exampleFolder else None),
      getEditSessionIdentifier = (\<lambda>f. None),
      provideEditSessionIdentityMatch = (\<lambda>f i c. None),
      partialMatchesEnabled = False,
      repositories = [\<lparr>rootUri = Some ''/p'', groups = [[0], [1]]\<rparr>],
      uriObject = (\<lambda>a. ''/p/a''),
      EditSessionSchemaVersion = 2,
      initialize = True,
      dialogChoice = (\<lambda>uris. 0),
      sha1Hex = (\<lambda>c. case c of None \<Rightarrow> [] | Some x \<Rightarrow> x),
      encodeBase64 = (\<lambda>b. b),
      decodeEditSessionFileContent = (\<lambda>v c. c),
      joinPath = (\<lambda>u p. u @ ''/'' @ p),
      relativePath = (\<lambda>from to. Some (drop (Suc (length from)) to)),
      uriPath = (\<lambda>u. u),
      writeFails = (\<lambda>u. False),
      delFails = (\<lambda>u. False),
      saveAll = (\<lambda>fs. fs),
      storeWrite = (\<lambda>s. Inr ''r1''),
      storeDeleteFails = (\<lambda>r. False)\<rparr>"

definition exampleChange :: Change where
  "exampleChange =
     \<lparr>type = Addition, fileType = File, relativeFilePath = ''a'', contents = Some ''new''\<rparr>"

definition exampleSession :: EditSession where
  "exampleSession =
     \<lparr>version = 2,
      folders = [\<lparr>name = ''p'', canonicalIdentity = None, workingChanges = [exampleChange]\<rparr>]\<rparr>"

definition exampleWorld :: world where
  "exampleWorld =
     \<lparr>files = [''/p/a'' \<mapsto> RegularFile ''old''],
      sessions = [(''r0'', exampleSession)],
      trace = []\<rparr>"

section \<open>Auxiliary lemmas\<close>

subsection \<open>Quiet steps\<close>

lemma emit_simps [simp]:
  "files (emit e w) = files w" "sessions (emit e w) = sessions w"
  "trace (emit e w) = trace w @ [e]"
  by (simp_all add: emit_def)

lemma quiet_refl [simp]: "quiet w w"
  by (simp add: quiet_def)

lemma quiet_trans: "quiet w w1 \<Longrightarrow> quiet w1 w2 \<Longrightarrow> quiet w w2"
  by (auto simp: quiet_def)

lemma quiet_emit: "\<not> is_mutation e \<Longrightarrow> quiet w w1 \<Longrightarrow> quiet w (emit e w1)"
  by (auto simp: quiet_def)

lemma quiet_emit_left: "\<not> is_mutation e \<Longrightarrow> quiet (emit e w) w1 \<Longrightarrow> quiet w w1"
  by (auto simp: quiet_def)

subsection \<open>The matcher only reports, and scans for the first accepted folder\<close>

lemma identityScan_step:
  "snd (identityScan env r force ci (f # fs) w) =
       emit (LogInfo ''Matching identity against edit session folder identity'') w
   \<or> snd (identityScan env r force ci (f # fs) w) =
       snd (identityScan env r force ci fs
              (emit (LogInfo ''Matching identity against edit session folder identity'') w))
   \<or> snd (identityScan env r force ci (f # fs) w) =
       snd (identityScan env r force ci fs
              (emit (NotifyPrompt ''editSessionPartialMatch'' r)
                 (emit (LogInfo ''Matching identity against edit session folder identity'') w)))"
  by (simp add: Let_def split: option.splits EditSessionIdentityMatch.splits)

lemma identityScan_quiet_from:
  "quiet w0 w \<Longrightarrow> quiet w0 (snd (identityScan env r force ci fs w))"
proof (induction fs arbitrary: w)
  case Nil
  then show ?case by simp
next
  case (Cons f fs)
  let ?w1 = "emit (LogInfo ''Matching identity against edit session folder identity'') w"
  let ?w2 = "emit (NotifyPrompt ''editSessionPartialMatch'' r) ?w1"
  have q1: "quiet w0 ?w1" using Cons.prems by (simp add: quiet_emit)
  have q2: "quiet w0 ?w2" using q1 by (simp add: quiet_emit)
  from identityScan_step[of env r force ci f fs w] Cons.IH[OF q1] Cons.IH[OF q2] q1
  show ?case by metis
qed

lemma identityScan_quiet: "quiet w (snd (identityScan env r force ci fs w))"
  by (rule identityScan_quiet_from) simp

lemma identityScan_accept:
  "identityAccepts env force ci f \<Longrightarrow>
     identityScan env r force ci (f # fs) w =
       (Some f, emit (LogInfo ''Matching identity against edit session folder identity'') w)"
  by (auto simp: identityAccepts_def Let_def split: option.splits EditSessionIdentityMatch.splits)

lemma identityScan_reject:
  "\<not> identityAccepts env force ci f \<Longrightarrow>
     \<exists>w'. identityScan env r force ci (f # fs) w = identityScan env r force ci fs w'"
  by (auto simp: identityAccepts_def Let_def split: option.splits EditSessionIdentityMatch.splits)

lemma identityScan_find:
  "fst (identityScan env r force ci fs w) = find (identityAccepts env force ci) fs"
proof (induction fs arbitrary: w)
  case Nil
  then show ?case by simp
next
  case (Cons f fs)
  show ?case
  proof (cases "identityAccepts env force ci f")
    case True
    then show ?thesis by (simp only: identityScan_accept find.simps fst_conv if_True)
  next
    case False
    then obtain w' where "identityScan env r force ci (f # fs) w = identityScan env r force ci fs w'"
      using identityScan_reject by blast
    with False Cons.IH[of w'] show ?thesis by (simp only: find.simps if_False)
  qed
qed

lemma identityScan_fst: "fst (identityScan env r force ci fs w) = fst (identityScan env r force ci fs w0)"
  by (simp add: identityScan_find)

lemma findFolderRoot_quiet: "quiet w (snd (findFolderRoot env r force folder w))"
  by (simp add: findFolderRoot_def identityScan_quiet split: option.splits)

lemma findFolderRoot_fst:
  "fst (findFolderRoot env r force folder w) = fst (findFolderRoot env r force folder w0)"
  by (simp add: findFolderRoot_def identityScan_find split: option.splits)

subsection \<open>generateChanges is quiet\<close>

lemma generateChangesLoop_quiet_from:
  "quiet w0 w \<Longrightarrow> quiet w0 (snd (generateChangesLoop env r force fs acc w))"
proof (induction fs arbitrary: acc w)
  case Nil
  then show ?case by simp
next
  case (Cons f fs)
  obtain root w1 where fr: "findFolderRoot env r force f w = (root, w1)"
    by (cases "findFolderRoot env r force f w")
  have "quiet w w1" using findFolderRoot_quiet[of w env r force f] fr by simp
  with Cons.prems have q1: "quiet w0 w1" by (rule quiet_trans)
  show ?case
  proof (cases root)
    case None
    with fr q1 show ?thesis by (simp add: quiet_emit)
  next
    case (Some folderRoot)
    show ?thesis
    proof (cases "folderChanges env w1 (localChangesOf env f) folderRoot (workingChanges f) acc")
      case (Inl e)
      with fr Some q1 show ?thesis by simp
    next
      case (Inr acc')
      with fr Some Cons.IH[OF q1, of acc'] show ?thesis by simp
    qed
  qed
qed

lemma generateChanges_quiet: "quiet w (snd (generateChanges env s r force w))"
  unfolding generateChanges_def by (rule generateChangesLoop_quiet_from) simp

subsection \<open>Applying the changes\<close>

text \<open>
  The loop touches files only, and whether it fails depends on the files alone.
\<close>

lemma applying_refl [simp]: "applying w w"
  by (simp add: applying_def)

lemma fs_writeFile_applying: "fs_writeFile env u b w = Inr w' \<Longrightarrow> applying w0 w \<Longrightarrow> applying w0 w'"
  by (auto simp: fs_writeFile_def applying_def split: if_splits)

lemma fs_del_applying: "fs_del env u w = Inr w' \<Longrightarrow> applying w0 w \<Longrightarrow> applying w0 w'"
  by (auto simp: fs_del_def applying_def split: if_splits)

lemma applyChanges_applying_from:
  "applying w0 w \<Longrightarrow> applying w0 (snd (applyChanges env v chs w))"
proof (induction chs arbitrary: w)
  case Nil
  then show ?case by simp
next
  case (Cons c chs)
  obtain uri ty cont where c: "c = (uri, ty, cont)" by (cases c)
  show ?case
  proof (cases ty)
    case Addition
    show ?thesis
    proof (cases "decodeEditSessionFileContent env v cont")
      case None
      with c Addition Cons.prems show ?thesis by simp
    next
      case (Some b)
      show ?thesis
      proof (cases "fs_writeFile env uri b w")
        case (Inl e)
        with c Addition Some Cons.prems show ?thesis by simp
      next
        case (Inr w')
        then have "applying w0 w'" using Cons.prems by (rule fs_writeFile_applying)
        with c Addition Some Inr Cons.IH[of w'] show ?thesis by simp
      qed
    qed
  next
    case Deletion
    show ?thesis
    proof (cases "fs_exists w uri")
      case False
      with c Deletion Cons.IH[OF Cons.prems] show ?thesis by simp
    next
      case True
      show ?thesis
      proof (cases "fs_del env uri w")
        case (Inl e)
        with c Deletion True Cons.prems show ?thesis by simp
      next
        case (Inr w')
        then have "applying w0 w'" using Cons.prems by (rule fs_del_applying)
        with c Deletion True Inr Cons.IH[of w'] show ?thesis by simp
      qed
    qed
  next
    case (OtherChangeType n)
    with c Cons.IH[OF Cons.prems] show ?thesis by simp
  qed
qed

lemma applyChanges_applying: "applying w (snd (applyChanges env v chs w))"
  by (rule applyChanges_applying_from) simp


subsection \<open>What generateChanges returns depends on the files alone\<close>

lemma store_read_emit [simp]: "store_read (emit e w) r = store_read w r"
  by (simp add: store_read_def split: option.splits)

lemma store_read_quiet: "quiet w w' \<Longrightarrow> store_read w' r = store_read w r"
  by (simp add: store_read_def quiet_def split: option.splits)

lemma willChangeLocalContents_files:
  "files w = files w0 \<Longrightarrow>
     willChangeLocalContents env w lc u c = willChangeLocalContents env w0 lc u c"
  by (simp add: willChangeLocalContents_def fs_readFile_def fs_exists_def
        split: ChangeType.splits)

lemma folderChanges_files:
  "files w = files w0 \<Longrightarrow>
     folderChanges env w lc root cs acc = folderChanges env w0 lc root cs acc"
proof (induction cs arbitrary: acc)
  case Nil
  then show ?case by simp
next
  case (Cons c cs)
  obtain chs cf where acc: "acc = (chs, cf)" by (cases acc)
  from Cons.prems
  have "willChangeLocalContents env w lc (joinPath env (folderUri root) (relativeFilePath c)) c
      = willChangeLocalContents env w0 lc (joinPath env (folderUri root) (relativeFilePath c)) c"
    by (rule willChangeLocalContents_files)
  with Cons.IH[OF Cons.prems] acc show ?case
    by (simp add: Let_def split: sum.splits)
qed

lemma generateChangesLoop_files:
  "files w = files w0 \<Longrightarrow>
     fst (generateChangesLoop env r force fs acc w) = fst (generateChangesLoop env r force fs acc w0)"
proof (induction fs arbitrary: acc w w0)
  case Nil
  then show ?case by simp
next
  case (Cons f fs)
  obtain root w1 where fr: "findFolderRoot env r force f w = (root, w1)"
    by (cases "findFolderRoot env r force f w")
  obtain root0 w10 where fr0: "findFolderRoot env r force f w0 = (root0, w10)"
    by (cases "findFolderRoot env r force f w0")
  have same: "root0 = root"
    using findFolderRoot_fst[of env r force f w w0] fr fr0 by simp
  have "quiet w w1" using findFolderRoot_quiet[of w env r force f] fr by simp
  moreover have "quiet w0 w10" using findFolderRoot_quiet[of w0 env r force f] fr0 by simp
  ultimately have fl: "files w1 = files w10" using Cons.prems by (simp add: quiet_def)
  show ?case
  proof (cases root)
    case None
    with fr fr0 same show ?thesis by simp
  next
    case (Some folderRoot)
    have fc: "folderChanges env w1 (localChangesOf env f) folderRoot (workingChanges f) acc
            = folderChanges env w10 (localChangesOf env f) folderRoot (workingChanges f) acc"
      using fl by (rule folderChanges_files)
    show ?thesis
    proof (cases "folderChanges env w1 (localChangesOf env f) folderRoot (workingChanges f) acc")
      case (Inl e)
      with fc have "folderChanges env w10 (localChangesOf env f) folderRoot (workingChanges f) acc = Inl e"
        by simp
      with Inl fr fr0 same Some show ?thesis by simp
    next
      case (Inr acc')
      with fc have "folderChanges env w10 (localChangesOf env f) folderRoot (workingChanges f) acc = Inr acc'"
        by simp
      with Inr fr fr0 same Some Cons.IH[OF fl, of acc'] show ?thesis by simp
    qed
  qed
qed

lemma generateChanges_files:
  "files w = files w0 \<Longrightarrow>
     fst (generateChanges env s r force w) = fst (generateChanges env s r force w0)"
  unfolding generateChanges_def by (rule generateChangesLoop_files)

subsection \<open>Conflicts are collected along with the changes\<close>

lemma folderChanges_subseq:
  "folderChanges env w lc root cs (chs, cf) = Inr (chs', cf') \<Longrightarrow> subseq cf chs
     \<Longrightarrow> subseq cf' chs'"
proof (induction cs arbitrary: chs cf)
  case Nil
  then show ?case by simp
next
  case (Cons c cs)
  then show ?case
    by (auto simp: Let_def split: sum.splits if_splits
             intro: list_emb_append_mono subseq_rev_drop_many)
qed

lemma generateChangesLoop_subseq:
  "generateChangesLoop env r force fs (chs, cf) w = (Inr (chs', cf'), w') \<Longrightarrow> subseq cf chs
     \<Longrightarrow> subseq cf' chs'"
proof (induction fs arbitrary: chs cf w)
  case Nil
  then show ?case by simp
next
  case (Cons f fs)
  then show ?case
    by (auto split: prod.splits option.splits sum.splits dest: folderChanges_subseq)
qed

lemma generateChanges_subseq:
  "fst (generateChanges env s r force w) = Inr (chs, cf) \<Longrightarrow> subseq cf chs"
  unfolding generateChanges_def
  using generateChangesLoop_subseq[of env r force "folders s" "[]" "[]" w chs cf]
  by (cases "generateChangesLoop env r force (folders s) ([], []) w") simp

subsection \<open>The paths through resumeEditSession\<close>

lemma resumeBody_shape:
  assumes g: "generateChanges env s x force w = (Inr (chs, cf), w1)"
  shows "resumeBody env s x force w =
     (if chs = [] then (None, w1)
      else if cf \<noteq> [] \<and> dialogChoice env (map fst cf) = 0
        then (None, emit (DialogShow (map fst cf)) w1)
      else
        (case applyChanges env (version s) chs
                (if cf \<noteq> [] then emit (DialogShow (map fst cf)) w1 else w1) of
           (Some e, w3) \<Rightarrow> (Some e, w3)
         | (None, w3) \<Rightarrow>
             if storeDeleteFails env x
             then (Some StoreError,
                   emit (LogInfo ''Deleting edit session after successfully applying it'') w3)
             else (None,
                   emit (LogInfo ''Deleted edit session'')
                     (emit (StoreDelete x)
                        ((emit (LogInfo ''Deleting edit session after successfully applying it'') w3)
                           \<lparr>sessions := filter (\<lambda>p. fst p \<noteq> x) (sessions w3)\<rparr>)))))"
  by (simp add: resumeBody_def g Let_def store_delete_def split: prod.splits option.splits)

lemma resumeBody_generate_fails:
  "generateChanges env s x force w = (Inl e, w1) \<Longrightarrow> resumeBody env s x force w = (Some e, w1)"
  by (simp add: resumeBody_def)

lemma resume_reaches_body:
  assumes "workbenchState env \<noteq> EMPTY" "silent \<longrightarrow> initialize env"
    and "store_read w r = Some (s, x)" "\<not> version s > EditSessionSchemaVersion env"
  shows "resumeEditSession env r silent force w =
     (case resumeBody env s x force (emit (LogInfo ''Resuming edit session'') w) of
        (Some e, w2) \<Rightarrow>
          emit (NotifyError ''resume failed'') (emit (LogError ''Failed to resume edit session'') w2)
      | (None, w2) \<Rightarrow> w2)"
  using assms by (auto simp: resumeEditSession_def Let_def)

lemma resume_early:
  assumes "workbenchState env = EMPTY \<or> (silent \<and> \<not> initialize env) \<or> store_read w r = None
     \<or> (\<exists>s x. store_read w r = Some (s, x) \<and> version s > EditSessionSchemaVersion env)"
  shows "quiet w (resumeEditSession env r silent force w)"
proof (cases "workbenchState env = EMPTY")
  case True
  then show ?thesis by (simp add: resumeEditSession_def)
next
  case ne: False
  show ?thesis
  proof (cases "silent \<and> \<not> initialize env")
    case True
    with ne show ?thesis by (simp add: resumeEditSession_def Let_def quiet_emit)
  next
    case ni: False
    show ?thesis
    proof (cases "store_read w r")
      case None
      with ne ni show ?thesis by (auto simp: resumeEditSession_def Let_def quiet_emit)
    next
      case (Some p)
      obtain s x where p: "p = (s, x)" by (cases p)
      with Some assms ne ni have "version s > EditSessionSchemaVersion env" by auto
      with ne ni Some p show ?thesis by (auto simp: resumeEditSession_def Let_def quiet_emit)
    qed
  qed
qed

lemma newEvents_append: "trace w' = trace w @ evs \<Longrightarrow> newEvents w w' = evs"
  by (simp add: newEvents_def)

lemma quiet_newEvents: "quiet w w' \<Longrightarrow> \<not> list_ex is_mutation (newEvents w w')"
  by (auto simp: quiet_def newEvents_def)


lemma quiet_files: "quiet w w' \<Longrightarrow> files w' = files w"
  by (simp add: quiet_def)

lemma quiet_sessions: "quiet w w' \<Longrightarrow> sessions w' = sessions w"
  by (simp add: quiet_def)




lemma subseq_nonempty: "subseq cf chs \<Longrightarrow> cf \<noteq> [] \<Longrightarrow> chs \<noteq> []"
  by auto

subsection \<open>A folder without a match\<close>

lemma reports_refl [simp]: "reports w w"
  by (simp add: reports_def)

lemma reports_trans: "reports w w1 \<Longrightarrow> reports w1 w2 \<Longrightarrow> reports w w2"
  by (auto simp: reports_def)

lemma reports_emit: "is_report e \<Longrightarrow> reports w w1 \<Longrightarrow> reports w (emit e w1)"
  by (auto simp: reports_def)

lemma identityScan_reports_from:
  "reports w0 w \<Longrightarrow> reports w0 (snd (identityScan env r force ci fs w))"
proof (induction fs arbitrary: w)
  case Nil
  then show ?case by simp
next
  case (Cons f fs)
  let ?w1 = "emit (LogInfo ''Matching identity against edit session folder identity'') w"
  let ?w2 = "emit (NotifyPrompt ''editSessionPartialMatch'' r) ?w1"
  have q1: "reports w0 ?w1" using Cons.prems by (simp add: reports_emit)
  have q2: "reports w0 ?w2" using q1 by (simp add: reports_emit)
  from identityScan_step[of env r force ci f fs w] Cons.IH[OF q1] Cons.IH[OF q2] q1
  show ?case by metis
qed

lemma findFolderRoot_reports: "reports w (snd (findFolderRoot env r force folder w))"
  by (simp add: findFolderRoot_def identityScan_reports_from split: option.splits)

lemma generateChangesLoop_unmatched:
  assumes "folder \<in> set fs" and "fst (findFolderRoot env r force folder w0) = None"
    and "reports wa w"
  shows "(\<exists>e. fst (generateChangesLoop env r force fs acc w) = Inl e)
    \<or> (fst (generateChangesLoop env r force fs acc w) = Inr ([], [])
       \<and> (\<exists>evs. trace (snd (generateChangesLoop env r force fs acc w)) =
             trace wa @ evs @ [LogInfo ''Skipping applying changes as no matching workspace folder was found'']
             \<and> list_all is_report evs))"
  using assms
proof (induction fs arbitrary: acc w)
  case Nil
  then show ?case by simp
next
  case (Cons f fs)
  obtain root w1 where fr: "findFolderRoot env r force f w = (root, w1)"
    by (cases "findFolderRoot env r force f w")
  have "reports w w1" using findFolderRoot_reports[of w env r force f] fr by simp
  with Cons.prems(3) have r1: "reports wa w1" by (rule reports_trans)
  show ?case
  proof (cases root)
    case None
    from r1 obtain evs where "trace w1 = trace wa @ evs" "list_all is_report evs"
      by (auto simp: reports_def)
    with fr None show ?thesis by simp
  next
    case (Some folderRoot)
    have "f \<noteq> folder"
    proof
      assume "f = folder"
      with fr Some findFolderRoot_fst[of env r force folder w w0] Cons.prems(2)
      show False by simp
    qed
    with Cons.prems(1) have mem: "folder \<in> set fs" by simp
    show ?thesis
    proof (cases "folderChanges env w1 (localChangesOf env f) folderRoot (workingChanges f) acc")
      case (Inl e)
      with fr Some show ?thesis by simp
    next
      case (Inr acc')
      with fr Some Cons.IH[OF mem Cons.prems(2) r1, of acc'] show ?thesis by simp
    qed
  qed
qed

subsection \<open>The changes collected by storeEditSession\<close>

lemma storedFrom_invariant: "storedFrom env fs c \<Longrightarrow> changeInvariant c"
  by (auto simp: storedFrom_def changeInvariant_def)

lemma storedFrom_props:
  "storedFrom env fs c \<Longrightarrow>
     changeInvariant c
     \<and> (type c = Addition \<or> type c = Deletion)
     \<and> (type c = Deletion \<longrightarrow> contents c = None)
     \<and> (type c = Addition \<longrightarrow>
          (\<exists>u v. fs u = Some (RegularFile v) \<and> contents c = Some (encodeBase64 env v)))"
  by (auto simp: storedFrom_def changeInvariant_def)

lemma fs_readFile_Inr: "fs_readFile w u = Inr v \<Longrightarrow> files w u = Some (RegularFile v)"
  by (simp add: fs_readFile_def split: option.splits entry.splits)

lemma trackedUrisLoop_stored:
  "trackedUrisLoop env uris (nm, working, he) w = (Inr (nm', working', he'), w')
     \<Longrightarrow> fs = files w
     \<Longrightarrow> list_all (storedFrom env fs) working
     \<Longrightarrow> list_all (storedFrom env fs) working' \<and> files w' = fs \<and> sessions w' = sessions w"
proof (induction uris arbitrary: nm working he w)
  case Nil
  then show ?case by simp
next
  case (Cons uri uris)
  show ?case
  proof (cases "getWorkspaceFolder env uri")
    case None
    let ?w1 = "emit (LogInfo ''Skipping working change as no associated workspace folder was found'') w"
    from Cons.prems(1) None
    have run: "trackedUrisLoop env uris (nm, working, he) ?w1 = (Inr (nm', working', he'), w')"
      by simp
    have "fs = files ?w1" using Cons.prems(2) by simp
    from Cons.IH [OF run this Cons.prems(3)] show ?thesis by simp
  next
    case (Some workspaceFolder)
    let ?nm = "case nm of None \<Rightarrow> Some (folderName workspaceFolder) | Some n \<Rightarrow> Some n"
    let ?rel = "case relativePath env (folderUri workspaceFolder) uri of
                  None \<Rightarrow> uriPath env uri | Some p \<Rightarrow> p"
    show ?thesis
    proof (cases "fs_stat_isFile w uri = Inr False")
      case True
      with Cons.prems(1) Some
      have run: "trackedUrisLoop env uris (?nm, working, he) w = (Inr (nm', working', he'), w')"
        by (simp add: Let_def)
      from Cons.IH [OF run Cons.prems(2) Cons.prems(3)] show ?thesis .
    next
      case nd: False
      show ?thesis
      proof (cases "fs_exists w uri")
        case True
        show ?thesis
        proof (cases "fs_readFile w uri")
          case (Inl e)
          with Cons.prems(1) Some nd True show ?thesis by (simp add: Let_def)
        next
          case (Inr v)
          let ?c = "\<lparr>type = Addition, fileType = File, relativeFilePath = ?rel,
                     contents = Some (encodeBase64 env v)\<rparr>"
          from Cons.prems(1) Some nd True Inr
          have run: "trackedUrisLoop env uris (?nm, working @ [?c], True) w
              = (Inr (nm', working', he'), w')"
            by (simp add: Let_def)
          have "storedFrom env fs ?c"
            using fs_readFile_Inr [OF Inr] Cons.prems(2) by (auto simp: storedFrom_def)
          with Cons.prems(3) have "list_all (storedFrom env fs) (working @ [?c])" by simp
          from Cons.IH [OF run Cons.prems(2) this] show ?thesis .
        qed
      next
        case False
        let ?c = "\<lparr>type = Deletion, fileType = File, relativeFilePath = ?rel, contents = None\<rparr>"
        from Cons.prems(1) Some nd False
        have run: "trackedUrisLoop env uris (?nm, working @ [?c], True) w
            = (Inr (nm', working', he'), w')"
          by (simp add: Let_def)
        have "storedFrom env fs ?c" by (simp add: storedFrom_def)
        with Cons.prems(3) have "list_all (storedFrom env fs) (working @ [?c])" by simp
        from Cons.IH [OF run Cons.prems(2) this] show ?thesis .
      qed
    qed
  qed
qed

lemma repositoriesLoop_stored:
  "repositoriesLoop env repos (fds, he) w = (Inr (fds', he'), w')
     \<Longrightarrow> fs = files w
     \<Longrightarrow> list_all (\<lambda>folder. list_all (storedFrom env fs) (workingChanges folder)) fds
     \<Longrightarrow> list_all (\<lambda>folder. list_all (storedFrom env fs) (workingChanges folder)) fds'
         \<and> files w' = fs \<and> sessions w' = sessions w"
proof (induction repos arbitrary: fds he w)
  case Nil
  then show ?case by simp
next
  case (Cons repository repos)
  let ?wsf = "case rootUri repository of None \<Rightarrow> None | Some r \<Rightarrow> getWorkspaceFolder env r"
  let ?uris = "map (uriObject env) (getChangedResources repository)"
  obtain res w1 where tl: "trackedUrisLoop env ?uris (map_option folderName ?wsf, [], he) w = (res, w1)"
    by (cases "trackedUrisLoop env ?uris (map_option folderName ?wsf, [], he) w")
  show ?case
  proof (cases res)
    case (Inl e)
    with Cons.prems(1) tl show ?thesis by (simp add: Let_def)
  next
    case (Inr st)
    obtain nm working he1 where st: "st = (nm, working, he1)" by (cases st)
    let ?folder = "\<lparr>name = (case nm of None \<Rightarrow> [] | Some n \<Rightarrow> n),
                    canonicalIdentity =
                      (case ?wsf of None \<Rightarrow> None | Some f \<Rightarrow> getEditSessionIdentifier env f),
                    workingChanges = working\<rparr>"
    from tl Inr st have tl': "trackedUrisLoop env ?uris (map_option folderName ?wsf, [], he) w
        = (Inr (nm, working, he1), w1)" by simp
    from trackedUrisLoop_stored [OF tl' Cons.prems(2)]
    have a: "list_all (storedFrom env fs) working" and f1: "files w1 = fs"
      and s1: "sessions w1 = sessions w" by simp_all
    from Cons.prems(1) tl'
    have run: "repositoriesLoop env repos (fds @ [?folder], he1) w1 = (Inr (fds', he'), w')"
      by (simp add: Let_def)
    have "list_all (\<lambda>folder. list_all (storedFrom env fs) (workingChanges folder)) (fds @ [?folder])"
      using Cons.prems(3) a by simp
    from Cons.IH [OF run f1 [symmetric] this] s1 show ?thesis by simp
  qed
qed

subsection \<open>The set of changed resources holds every object once\<close>

lemma set_add_distinct: "distinct resources \<Longrightarrow> distinct (set_add resources a)"
  by (simp add: set_add_def)

lemma foldl_set_add_distinct: "distinct resources \<Longrightarrow> distinct (foldl set_add resources as)"
  by (induction as arbitrary: resources) (simp_all add: set_add_distinct)

lemma foldl_groups_distinct:
  "distinct resources \<Longrightarrow>
     distinct (foldl (\<lambda>resources resourceGroups. foldl set_add resources resourceGroups)
                 resources gs)"
  by (induction gs arbitrary: resources) (simp_all add: foldl_set_add_distinct)

lemma getChangedResources_distinct: "distinct (getChangedResources repository)"
  unfolding getChangedResources_def by (rule foldl_groups_distinct) simp

subsection \<open>What a successful run of the apply loop has recorded\<close>




subsection \<open>When the remote session is deleted\<close>


subsection \<open>Equations for evaluating the examples\<close>

lemmas example_defs = exampleServices_def exampleFolder_def exampleChange_def
  exampleSession_def exampleWorld_def

lemmas generate_defs = generateChanges_def findFolderRoot_def localChangesOf_def
  repositoryOfFolder_def getChangedResources_def set_add_def willChangeLocalContents_def
  fs_readFile_def fs_exists_def Let_def

lemmas resume_defs = resumeEditSession_def resumeBody_def store_read_def store_delete_def
  fs_writeFile_def fs_del_def emit_def newEvents_def

lemmas store_defs = storeEditSession_def getChangedResources_def set_add_def
  fs_stat_isFile_def fs_exists_def fs_readFile_def emit_def Let_def

section \<open>Resuming a session of a newer schema version\<close>

text \<open>
  C1: when the session that the store returns for the reference has a version greater
  than \<^verbatim>\<open>EditSessionSchemaVersion\<close>, \<open>resumeEditSession\<close> changes no file, leaves the
  remote store as it is and records no write, delete or store deletion; and when the
  resume gets as far as reading the session (the workspace is not empty and a silent
  resume finds the store initialised), all it does is log the start and notify the user
  of the error \<^verbatim>\<open>client too old\<close>.
\<close>

theorem resume_rejects_newer_version:
  assumes "store_read w r = Some (editSession, r')"
    and "version editSession > EditSessionSchemaVersion env"
  shows "files (resumeEditSession env r silent force w) = files w
    \<and> sessions (resumeEditSession env r silent force w) = sessions w
    \<and> \<not> list_ex is_mutation (newEvents w (resumeEditSession env r silent force w))
    \<and> (workbenchState env \<noteq> EMPTY \<and> (silent \<longrightarrow> initialize env) \<longrightarrow>
          newEvents w (resumeEditSession env r silent force w) =
            [LogInfo ''Resuming edit session'', NotifyError ''client too old''])"
proof -
  have "quiet w (resumeEditSession env r silent force w)"
    using assms by (intro resume_early) blast
  moreover have "workbenchState env \<noteq> EMPTY \<and> (silent \<longrightarrow> initialize env) \<longrightarrow>
          newEvents w (resumeEditSession env r silent force w) =
            [LogInfo ''Resuming edit session'', NotifyError ''client too old'']"
    using assms by (auto simp: resumeEditSession_def Let_def newEvents_def)
  ultimately show ?thesis
    by (simp add: quiet_files quiet_sessions quiet_newEvents)
qed

theorem resume_rejects_newer_version_witness:
  "store_read (exampleWorld\<lparr>sessions := [(''r0'', exampleSession\<lparr>version := 3\<rparr>)]\<rparr>) None
     = Some (exampleSession\<lparr>version := 3\<rparr>, ''r0'')
   \<and> version (exampleSession\<lparr>version := 3\<rparr>) > EditSessionSchemaVersion exampleServices
   \<and> files (resumeEditSession exampleServices None False False
        (exampleWorld\<lparr>sessions := [(''r0'', exampleSession\<lparr>version := 3\<rparr>)]\<rparr>)) ''/p/a''
       = Some (RegularFile ''old'')
   \<and> sessions (resumeEditSession exampleServices None False False
        (exampleWorld\<lparr>sessions := [(''r0'', exampleSession\<lparr>version := 3\<rparr>)]\<rparr>))
       = [(''r0'', exampleSession\<lparr>version := 3\<rparr>)]
   \<and> newEvents (exampleWorld\<lparr>sessions := [(''r0'', exampleSession\<lparr>version := 3\<rparr>)]\<rparr>)
        (resumeEditSession exampleServices None False False
          (exampleWorld\<lparr>sessions := [(''r0'', exampleSession\<lparr>version := 3\<rparr>)]\<rparr>))
       = [LogInfo ''Resuming edit session'', NotifyError ''client too old'']"
proof -
  have rd: "store_read (exampleWorld\<lparr>sessions := [(''r0'', exampleSession\<lparr>version := 3\<rparr>)]\<rparr>) None
     = Some (exampleSession\<lparr>version := 3\<rparr>, ''r0'')"
    by (simp add: store_read_def)
  have v: "version (exampleSession\<lparr>version := 3\<rparr>) > EditSessionSchemaVersion exampleServices"
    by (simp add: exampleServices_def)
  have nonempty: "workbenchState exampleServices \<noteq> EMPTY"
    by (simp add: exampleServices_def)
  from resume_rejects_newer_version [OF rd v, of False False] rd v nonempty
  show ?thesis by (simp add: exampleWorld_def)
qed

section \<open>The verdict of the conflict check\<close>

text \<open>
  C2, as the specification states it, promises a verdict for every addition whose target
  is in the local changed-resource set. At a target that the file service cannot read
  (here: a file that was deleted locally, no entry on disk) \<^verbatim>\<open>readFile\<close> throws and the
  check returns no verdict.
\<close>

theorem willChangeLocalContents_missing_file_counterexample:
  "willChangeLocalContents exampleServices (exampleWorld\<lparr>files := Map.empty\<rparr>)
     {''/p/a''} ''/p/a'' exampleChange = Inl (FileOperationError ''/p/a'')"
  by (simp add: willChangeLocalContents_def fs_readFile_def example_defs)

text \<open>
  C2, amended: the conflict check returns false when the target URI is not in the local
  changed-resource set. When it is in the set: for an addition whose target is a regular
  file on disk the check returns true exactly when the hash of the incoming contents
  differs from the hash of the base64 encoding of the contents on disk; for a deletion it
  returns true exactly when something exists at the target; for every other change type
  it fails with the error for an unhandled change type.
\<close>

theorem willChangeLocalContents_verdict:
  "(uri \<notin> localChanges \<longrightarrow>
      willChangeLocalContents env w localChanges uri change = Inr False)
   \<and> (uri \<in> localChanges \<and> type change = Addition \<and> files w uri = Some (RegularFile v) \<longrightarrow>
        willChangeLocalContents env w localChanges uri change =
          Inr (sha1Hex env (contents change) \<noteq> sha1Hex env (Some (encodeBase64 env v))))
   \<and> (uri \<in> localChanges \<and> type change = Deletion \<longrightarrow>
        willChangeLocalContents env w localChanges uri change = Inr (files w uri \<noteq> None))
   \<and> (uri \<in> localChanges \<and> type change \<noteq> Addition \<and> type change \<noteq> Deletion \<longrightarrow>
        willChangeLocalContents env w localChanges uri change = Inl UnhandledChangeType)"
  by (cases "type change")
     (auto simp: willChangeLocalContents_def fs_readFile_def fs_exists_def
           split: option.splits entry.splits)

theorem willChangeLocalContents_verdict_witness:
  "willChangeLocalContents exampleServices exampleWorld {} ''/p/a'' exampleChange = Inr False
   \<and> willChangeLocalContents exampleServices exampleWorld {''/p/a''} ''/p/a'' exampleChange
       = Inr True
   \<and> willChangeLocalContents exampleServices exampleWorld {''/p/a''} ''/p/a''
        (exampleChange\<lparr>contents := Some ''old''\<rparr>) = Inr False
   \<and> willChangeLocalContents exampleServices exampleWorld {''/p/a''} ''/p/a''
        (exampleChange\<lparr>type := Deletion, contents := None\<rparr>) = Inr True
   \<and> willChangeLocalContents exampleServices exampleWorld {''/p/a''} ''/p/b''
        (exampleChange\<lparr>type := Deletion, contents := None\<rparr>) = Inr False
   \<and> willChangeLocalContents exampleServices exampleWorld {''/p/a''} ''/p/a''
        (exampleChange\<lparr>type := OtherChangeType 7\<rparr>) = Inl UnhandledChangeType"
  using
    willChangeLocalContents_verdict
      [of "''/p/a''" "{}" exampleServices exampleWorld exampleChange "''old''"]
    willChangeLocalContents_verdict
      [of "''/p/a''" "{''/p/a''}" exampleServices exampleWorld exampleChange "''old''"]
    willChangeLocalContents_verdict
      [of "''/p/a''" "{''/p/a''}" exampleServices exampleWorld
          "exampleChange\<lparr>contents := Some ''old''\<rparr>" "''old''"]
    willChangeLocalContents_verdict
      [of "''/p/a''" "{''/p/a''}" exampleServices exampleWorld
          "exampleChange\<lparr>type := Deletion, contents := None\<rparr>" "''old''"]
    willChangeLocalContents_verdict
      [of "''/p/b''" "{''/p/a''}" exampleServices exampleWorld
          "exampleChange\<lparr>type := Deletion, contents := None\<rparr>" "''old''"]
    willChangeLocalContents_verdict
      [of "''/p/a''" "{''/p/a''}" exampleServices exampleWorld
          "exampleChange\<lparr>type := OtherChangeType 7\<rparr>" "''old''"]
  by (simp add: example_defs)

section \<open>The remote session is deleted last\<close>




section \<open>Conflicts are confirmed before anything is changed\<close>

text \<open>
  C4: in a resume that reaches the reconciliation and finds a non-empty list of
  conflicting changes, the overwrite dialog is shown, and no write, delete or store
  deletion is recorded before it; if the user cancels (choice 0), nothing is recorded
  after the dialog, no file has changed and the remote store still has every session.
\<close>

theorem resume_asks_before_overwriting:
  assumes "workbenchState env \<noteq> EMPTY" and "silent \<longrightarrow> initialize env"
    and "store_read w r = Some (editSession, r')"
    and "\<not> version editSession > EditSessionSchemaVersion env"
    and "fst (generateChanges env editSession r' force w) = Inr (changes, conflictingChanges)"
    and "conflictingChanges \<noteq> []"
  shows "\<exists>pre post.
           newEvents w (resumeEditSession env r silent force w) =
             pre @ DialogShow (map fst conflictingChanges) # post
         \<and> \<not> list_ex is_mutation pre
         \<and> (dialogChoice env (map fst conflictingChanges) = 0 \<longrightarrow>
              post = []
              \<and> files (resumeEditSession env r silent force w) = files w
              \<and> sessions (resumeEditSession env r silent force w) = sessions w)"
proof -
  let ?w0 = "emit (LogInfo ''Resuming edit session'') w"
  let ?d = "DialogShow (map fst conflictingChanges)"
  note body = resume_reaches_body [OF assms(1-4), of force]
  obtain res w1 where g0: "generateChanges env editSession r' force ?w0 = (res, w1)"
    by (cases "generateChanges env editSession r' force ?w0")
  have "res = Inr (changes, conflictingChanges)"
    using generateChanges_files [of ?w0 w env editSession r' force] g0 assms(5) by simp
  with g0 have g: "generateChanges env editSession r' force ?w0
      = (Inr (changes, conflictingChanges), w1)" by simp
  have "quiet ?w0 w1" using generateChanges_quiet [of ?w0 env editSession r' force] g by simp
  then obtain evs1 where t1: "trace w1 = trace w @ LogInfo ''Resuming edit session'' # evs1"
    and m1: "\<not> list_ex is_mutation evs1"
    and f1: "files w1 = files w" and s1: "sessions w1 = sessions w"
    by (auto simp: quiet_def)
  have ne: "changes \<noteq> []"
    using generateChanges_subseq [OF assms(5)] assms(6) by (rule subseq_nonempty)
  note shape = resumeBody_shape [OF g]
  have pre_ok: "\<not> list_ex is_mutation (LogInfo ''Resuming edit session'' # evs1)"
    using m1 by simp
  show ?thesis
  proof (cases "dialogChoice env (map fst conflictingChanges) = 0")
    case True
    with shape ne assms(6) body have w': "resumeEditSession env r silent force w = emit ?d w1"
      by simp
    have "newEvents w (resumeEditSession env r silent force w)
        = (LogInfo ''Resuming edit session'' # evs1) @ ?d # []"
      by (rule newEvents_append) (simp add: w' t1)
    with pre_ok w' f1 s1 show ?thesis by (metis emit_simps(1) emit_simps(2))
  next
    case False
    obtain ares w3 where ar: "applyChanges env (version editSession) changes (emit ?d w1) = (ares, w3)"
      by (cases "applyChanges env (version editSession) changes (emit ?d w1)")
    have "applying (emit ?d w1) w3"
      using applyChanges_applying [of "emit ?d w1" env "version editSession" changes] ar by simp
    then obtain evs3 where t3: "trace w3 = trace w1 @ ?d # evs3"
      by (auto simp: applying_def)
    have "\<exists>tail. trace (resumeEditSession env r silent force w) = trace w3 @ tail"
      using shape ne assms(6) False body ar
      by (cases ares) (simp_all add: emit_def)
    then obtain tail where "trace (resumeEditSession env r silent force w) = trace w3 @ tail"
      by blast
    then have "trace (resumeEditSession env r silent force w)
       = trace w @ (LogInfo ''Resuming edit session'' # evs1) @ ?d # (evs3 @ tail)"
      by (simp add: t3 t1)
    then have "newEvents w (resumeEditSession env r silent force w)
        = (LogInfo ''Resuming edit session'' # evs1) @ ?d # (evs3 @ tail)"
      by (rule newEvents_append)
    with pre_ok False show ?thesis
      by (intro exI [of _ "LogInfo ''Resuming edit session'' # evs1"] exI [of _ "evs3 @ tail"])
         simp
  qed
qed

theorem resume_asks_before_overwriting_witness:
  "fst (generateChanges exampleServices exampleSession ''r0'' False exampleWorld)
     = Inr ([(''/p/a'', Addition, Some ''new'')], [(''/p/a'', Addition, Some ''new'')])
   \<and> dialogChoice exampleServices (map fst [(''/p/a'', Addition, Some ''new'')]) = 0
   \<and> (\<exists>pre. newEvents exampleWorld (resumeEditSession exampleServices None False False exampleWorld)
              = pre @ [DialogShow [''/p/a'']]
            \<and> \<not> list_ex is_mutation pre)
   \<and> files (resumeEditSession exampleServices None False False exampleWorld) = files exampleWorld
   \<and> sessions (resumeEditSession exampleServices None False False exampleWorld)
       = sessions exampleWorld"
proof -
  have a1: "workbenchState exampleServices \<noteq> EMPTY" by (simp add: exampleServices_def)
  have a2: "False \<longrightarrow> initialize exampleServices" by simp
  have a3: "store_read exampleWorld None = Some (exampleSession, ''r0'')"
    by (simp add: store_read_def exampleWorld_def)
  have a4: "\<not> version exampleSession > EditSessionSchemaVersion exampleServices"
    by (simp add: example_defs)
  have a5: "fst (generateChanges exampleServices exampleSession ''r0'' False exampleWorld)
     = Inr ([(''/p/a'', Addition, Some ''new'')], [(''/p/a'', Addition, Some ''new'')])"
    by (simp add: generate_defs example_defs)
  have a6: "[(''/p/a'', Addition, Some ''new'')] \<noteq> ([] :: ResolvedChange list)" by simp
  have c: "dialogChoice exampleServices (map fst [(''/p/a'', Addition, Some ''new'')]) = 0"
    by (simp add: exampleServices_def)
  from resume_asks_before_overwriting [OF a1 a2 a3 a4 a5 a6] c a5
  show ?thesis by auto
qed

section \<open>Matching by name and matching by identity\<close>

text \<open>
  C5, as the specification states it, has the matcher use identities only whenever the
  remote folder's canonical identity is present. The source tests the field for
  truthiness, so a canonical identity that is the empty string is matched by name: here
  no local folder is accepted by identity, and the folder of the same name is returned.
\<close>

theorem empty_identity_matches_by_name_counterexample:
  "fst (findFolderRoot (exampleServices\<lparr>getEditSessionIdentifier := \<lambda>f. Some ''x''\<rparr>) ''r0'' False
          \<lparr>name = ''p'', canonicalIdentity = Some [], workingChanges = []\<rparr> exampleWorld)
     = Some exampleFolder
   \<and> find (identityAccepts (exampleServices\<lparr>getEditSessionIdentifier := \<lambda>f. Some ''x''\<rparr>) False [])
        (workspaceFolders (exampleServices\<lparr>getEditSessionIdentifier := \<lambda>f. Some ''x''\<rparr>))
     = None"
  by (simp add: findFolderRoot_def identityAccepts_def exampleServices_def exampleFolder_def)

text \<open>
  C5, amended: for a remote folder whose canonical identity is absent or the empty
  string, the matcher returns the first local folder of exactly the same name, and asks
  and records nothing. For a remote folder whose canonical identity is present and not
  empty, the matcher returns the first local folder that \<open>identityAccepts\<close> accepts
  (equal identity, or the provider's classification), and the remote folder's name has no
  influence on the result: identity takes precedence over the name.
\<close>

theorem findFolderRoot_by_name_or_by_identity:
  "((canonicalIdentity folder = None \<or> canonicalIdentity folder = Some []) \<longrightarrow>
       findFolderRoot env r force folder w =
         (find (\<lambda>f. folderName f = name folder) (workspaceFolders env), w))
   \<and> (\<forall>ci. canonicalIdentity folder = Some ci \<and> ci \<noteq> [] \<longrightarrow>
         fst (findFolderRoot env r force folder w) =
           find (identityAccepts env force ci) (workspaceFolders env)
         \<and> (\<forall>n. findFolderRoot env r force (folder\<lparr>name := n\<rparr>) w =
                  findFolderRoot env r force folder w))"
  by (auto simp: findFolderRoot_def identityScan_find)

theorem findFolderRoot_by_name_or_by_identity_witness:
  "findFolderRoot
     (exampleServices
        \<lparr>workspaceFolders :=
           [\<lparr>folderName = ''p'', folderUri = ''/p1''\<rparr>, \<lparr>folderName = ''p'', folderUri = ''/p2''\<rparr>],
         getEditSessionIdentifier :=
           \<lambda>f. if folderUri f = ''/p2'' then Some ''id'' else Some ''other''\<rparr>)
     ''r0'' False \<lparr>name = ''p'', canonicalIdentity = None, workingChanges = []\<rparr> exampleWorld
     = (Some \<lparr>folderName = ''p'', folderUri = ''/p1''\<rparr>, exampleWorld)
   \<and> fst (findFolderRoot
        (exampleServices
           \<lparr>workspaceFolders :=
              [\<lparr>folderName = ''p'', folderUri = ''/p1''\<rparr>, \<lparr>folderName = ''p'', folderUri = ''/p2''\<rparr>],
            getEditSessionIdentifier :=
              \<lambda>f. if folderUri f = ''/p2'' then Some ''id'' else Some ''other''\<rparr>)
        ''r0'' False \<lparr>name = ''p'', canonicalIdentity = Some ''id'', workingChanges = []\<rparr>
        exampleWorld)
     = Some \<lparr>folderName = ''p'', folderUri = ''/p2''\<rparr>
   \<and> fst (findFolderRoot
        (exampleServices
           \<lparr>workspaceFolders :=
              [\<lparr>folderName = ''p'', folderUri = ''/p1''\<rparr>, \<lparr>folderName = ''p'', folderUri = ''/p2''\<rparr>],
            getEditSessionIdentifier :=
              \<lambda>f. if folderUri f = ''/p2'' then Some ''id'' else Some ''other''\<rparr>)
        ''r0'' False \<lparr>name = ''q'', canonicalIdentity = Some ''id'', workingChanges = []\<rparr>
        exampleWorld)
     = Some \<lparr>folderName = ''p'', folderUri = ''/p2''\<rparr>"
  using
    findFolderRoot_by_name_or_by_identity
      [of "\<lparr>name = ''p'', canonicalIdentity = None, workingChanges = []\<rparr>"
          "exampleServices
             \<lparr>workspaceFolders :=
                [\<lparr>folderName = ''p'', folderUri = ''/p1''\<rparr>, \<lparr>folderName = ''p'', folderUri = ''/p2''\<rparr>],
              getEditSessionIdentifier :=
                \<lambda>f. if folderUri f = ''/p2'' then Some ''id'' else Some ''other''\<rparr>"
          "''r0''" False exampleWorld]
    findFolderRoot_by_name_or_by_identity
      [of "\<lparr>name = ''p'', canonicalIdentity = Some ''id'', workingChanges = []\<rparr>"
          "exampleServices
             \<lparr>workspaceFolders :=
                [\<lparr>folderName = ''p'', folderUri = ''/p1''\<rparr>, \<lparr>folderName = ''p'', folderUri = ''/p2''\<rparr>],
              getEditSessionIdentifier :=
                \<lambda>f. if folderUri f = ''/p2'' then Some ''id'' else Some ''other''\<rparr>"
          "''r0''" False exampleWorld]
    findFolderRoot_by_name_or_by_identity
      [of "\<lparr>name = ''q'', canonicalIdentity = Some ''id'', workingChanges = []\<rparr>"
          "exampleServices
             \<lparr>workspaceFolders :=
                [\<lparr>folderName = ''p'', folderUri = ''/p1''\<rparr>, \<lparr>folderName = ''p'', folderUri = ''/p2''\<rparr>],
              getEditSessionIdentifier :=
                \<lambda>f. if folderUri f = ''/p2'' then Some ''id'' else Some ''other''\<rparr>"
          "''r0''" False exampleWorld]
  by (simp add: identityAccepts_def exampleServices_def)

section \<open>Partial matches\<close>

text \<open>
  C6: let the identity of a local folder differ from the remote canonical identity and be
  classified as \<open>Partial\<close>. If partial matches are not enabled, the scan goes on with
  the remaining folders as if there were no match, and nothing is shown. If they are
  enabled and the force flag is set, the folder is returned and the scan stops. If they
  are enabled and the force flag is not set, the prompt is shown and the scan goes on
  with the remaining folders. Without the force flag the folder returned is the one that
  the remaining folders give.
\<close>

theorem partial_match_step:
  assumes "getEditSessionIdentifier env f = Some i" and "i \<noteq> ci"
    and "provideEditSessionIdentityMatch env f i ci = Some Partial"
  shows
    "(\<not> partialMatchesEnabled env \<longrightarrow>
        identityScan env r force ci (f # fs) w =
          identityScan env r force ci fs
            (emit (LogInfo ''Matching identity against edit session folder identity'') w))
     \<and> (partialMatchesEnabled env \<and> force \<longrightarrow>
          identityScan env r force ci (f # fs) w =
            (Some f, emit (LogInfo ''Matching identity against edit session folder identity'') w))
     \<and> (partialMatchesEnabled env \<and> \<not> force \<longrightarrow>
          identityScan env r force ci (f # fs) w =
            identityScan env r force ci fs
              (emit (NotifyPrompt ''editSessionPartialMatch'' r)
                 (emit (LogInfo ''Matching identity against edit session folder identity'') w))
          \<and> NotifyPrompt ''editSessionPartialMatch'' r
               \<in> set (newEvents w (snd (identityScan env r force ci (f # fs) w))))
     \<and> (\<not> force \<longrightarrow>
          fst (identityScan env r force ci (f # fs) w) = fst (identityScan env r force ci fs w))"
proof -
  let ?w1 = "emit (LogInfo ''Matching identity against edit session folder identity'') w"
  let ?w2 = "emit (NotifyPrompt ''editSessionPartialMatch'' r) ?w1"
  have steps: "(\<not> partialMatchesEnabled env \<longrightarrow>
        identityScan env r force ci (f # fs) w = identityScan env r force ci fs ?w1)
     \<and> (partialMatchesEnabled env \<and> force \<longrightarrow>
          identityScan env r force ci (f # fs) w = (Some f, ?w1))
     \<and> (partialMatchesEnabled env \<and> \<not> force \<longrightarrow>
          identityScan env r force ci (f # fs) w = identityScan env r force ci fs ?w2)"
    using assms by (simp add: Let_def)
  have "quiet ?w2 (snd (identityScan env r force ci fs ?w2))"
    by (rule identityScan_quiet)
  then obtain evs where "trace (snd (identityScan env r force ci fs ?w2)) = trace ?w2 @ evs"
    by (auto simp: quiet_def)
  then have "newEvents w (snd (identityScan env r force ci fs ?w2)) =
      [LogInfo ''Matching identity against edit session folder identity'',
       NotifyPrompt ''editSessionPartialMatch'' r] @ evs"
    by (intro newEvents_append) simp
  then have prompt: "NotifyPrompt ''editSessionPartialMatch'' r
      \<in> set (newEvents w (snd (identityScan env r force ci fs ?w2)))"
    by simp
  have "\<not> force \<longrightarrow> \<not> identityAccepts env force ci f"
    using assms by (simp add: identityAccepts_def)
  then have rest: "\<not> force \<longrightarrow>
      fst (identityScan env r force ci (f # fs) w) = fst (identityScan env r force ci fs w)"
    by (simp only: identityScan_find find.simps) simp
  have third: "partialMatchesEnabled env \<and> \<not> force \<longrightarrow>
          identityScan env r force ci (f # fs) w = identityScan env r force ci fs ?w2
          \<and> NotifyPrompt ''editSessionPartialMatch'' r
               \<in> set (newEvents w (snd (identityScan env r force ci (f # fs) w)))"
  proof
    assume "partialMatchesEnabled env \<and> \<not> force"
    with steps have eq: "identityScan env r force ci (f # fs) w = identityScan env r force ci fs ?w2"
      by blast
    from prompt show "identityScan env r force ci (f # fs) w = identityScan env r force ci fs ?w2
          \<and> NotifyPrompt ''editSessionPartialMatch'' r
               \<in> set (newEvents w (snd (identityScan env r force ci (f # fs) w)))"
      by (simp only: eq simp_thms)
  qed
  from steps third rest show ?thesis by blast
qed

theorem partial_match_step_witness:
  "identityScan
     (exampleServices
        \<lparr>getEditSessionIdentifier := \<lambda>f. Some ''mine'',
         provideEditSessionIdentityMatch := \<lambda>f i c. Some Partial\<rparr>)
     ''r0'' True ''theirs'' [exampleFolder] exampleWorld
     = (None, emit (LogInfo ''Matching identity against edit session folder identity'') exampleWorld)
   \<and> identityScan
     (exampleServices
        \<lparr>getEditSessionIdentifier := \<lambda>f. Some ''mine'',
         provideEditSessionIdentityMatch := \<lambda>f i c. Some Partial,
         partialMatchesEnabled := True\<rparr>)
     ''r0'' True ''theirs'' [exampleFolder] exampleWorld
     = (Some exampleFolder,
        emit (LogInfo ''Matching identity against edit session folder identity'') exampleWorld)
   \<and> identityScan
     (exampleServices
        \<lparr>getEditSessionIdentifier := \<lambda>f. Some ''mine'',
         provideEditSessionIdentityMatch := \<lambda>f i c. Some Partial,
         partialMatchesEnabled := True\<rparr>)
     ''r0'' False ''theirs'' [exampleFolder] exampleWorld
     = (None,
        emit (NotifyPrompt ''editSessionPartialMatch'' ''r0'')
          (emit (LogInfo ''Matching identity against edit session folder identity'') exampleWorld))"
proof -
  let ?off = "exampleServices
        \<lparr>getEditSessionIdentifier := \<lambda>f. Some ''mine'',
         provideEditSessionIdentityMatch := \<lambda>f i c. Some Partial\<rparr>"
  let ?on = "exampleServices
        \<lparr>getEditSessionIdentifier := \<lambda>f. Some ''mine'',
         provideEditSessionIdentityMatch := \<lambda>f i c. Some Partial,
         partialMatchesEnabled := True\<rparr>"
  have i0: "getEditSessionIdentifier ?off exampleFolder = Some ''mine''" by simp
  have i1: "getEditSessionIdentifier ?on exampleFolder = Some ''mine''" by simp
  have d: "''mine'' \<noteq> ''theirs''" by simp
  have p0: "provideEditSessionIdentityMatch ?off exampleFolder ''mine'' ''theirs'' = Some Partial"
    by simp
  have p1: "provideEditSessionIdentityMatch ?on exampleFolder ''mine'' ''theirs'' = Some Partial"
    by simp
  have off: "\<not> partialMatchesEnabled ?off" by (simp add: exampleServices_def)
  have on: "partialMatchesEnabled ?on" by simp
  from partial_match_step [OF i0 d p0, of "''r0''" True "[]" exampleWorld]
    partial_match_step [OF i1 d p1, of "''r0''" True "[]" exampleWorld]
    partial_match_step [OF i1 d p1, of "''r0''" False "[]" exampleWorld]
    off on
  show ?thesis by simp
qed

section \<open>A folder of the session without a local match\<close>

text \<open>
  C7, as the specification states it, promises two empty lists and a reported skip
  whenever a folder of the session has no local match. The folders are visited in order:
  here the conflict check of the first, matched folder throws (its file was deleted
  locally) before the unmatched folder is reached, \<open>generateChanges\<close> returns no lists,
  and the resume reports a failure.
\<close>

theorem unmatched_folder_after_failed_check_counterexample:
  "fst (findFolderRoot exampleServices ''r0'' False
          \<lparr>name = ''q'', canonicalIdentity = None, workingChanges = []\<rparr>
          (exampleWorld\<lparr>files := Map.empty\<rparr>)) = None
   \<and> fst (generateChanges exampleServices
            (exampleSession\<lparr>folders := folders exampleSession @
               [\<lparr>name = ''q'', canonicalIdentity = None, workingChanges = []\<rparr>]\<rparr>)
            ''r0'' False (exampleWorld\<lparr>files := Map.empty\<rparr>))
       = Inl (FileOperationError ''/p/a'')
   \<and> newEvents
        (exampleWorld
           \<lparr>files := Map.empty,
            sessions := [(''r0'', exampleSession\<lparr>folders := folders exampleSession @
               [\<lparr>name = ''q'', canonicalIdentity = None, workingChanges = []\<rparr>]\<rparr>)]\<rparr>)
        (resumeEditSession exampleServices None False False
           (exampleWorld
              \<lparr>files := Map.empty,
               sessions := [(''r0'', exampleSession\<lparr>folders := folders exampleSession @
                  [\<lparr>name = ''q'', canonicalIdentity = None, workingChanges = []\<rparr>]\<rparr>)]\<rparr>))
       = [LogInfo ''Resuming edit session'', LogError ''Failed to resume edit session'',
          NotifyError ''resume failed'']"
  by (simp add: resume_defs generate_defs example_defs)

text \<open>
  C7, amended: if a folder of the session that the store returns has no local match, the
  resume changes no file, leaves the remote store as it is and records no mutation;
  \<open>generateChanges\<close> returns no change: it fails or returns two empty lists; and when
  it returns them in a resume that reaches the reconciliation, the resume records log
  lines and prompts only, the last one being the log line of the skip: no error is
  notified.
\<close>

theorem unmatched_folder_applies_nothing:
  assumes "store_read w r = Some (editSession, r')"
    and "folder \<in> set (folders editSession)"
    and "fst (findFolderRoot env r' force folder w) = None"
  shows "files (resumeEditSession env r silent force w) = files w
    \<and> sessions (resumeEditSession env r silent force w) = sessions w
    \<and> \<not> list_ex is_mutation (newEvents w (resumeEditSession env r silent force w))
    \<and> ((\<exists>e. fst (generateChanges env editSession r' force w) = Inl e)
        \<or> fst (generateChanges env editSession r' force w) = Inr ([], []))
    \<and> (workbenchState env \<noteq> EMPTY \<and> (silent \<longrightarrow> initialize env)
        \<and> \<not> version editSession > EditSessionSchemaVersion env
        \<and> fst (generateChanges env editSession r' force w) = Inr ([], []) \<longrightarrow>
          list_all is_report (newEvents w (resumeEditSession env r silent force w))
          \<and> last (newEvents w (resumeEditSession env r silent force w)) =
              LogInfo ''Skipping applying changes as no matching workspace folder was found'')"
proof -
  let ?w0 = "emit (LogInfo ''Resuming edit session'') w"
  let ?skip = "LogInfo ''Skipping applying changes as no matching workspace folder was found''"
  obtain res w1 where g0: "generateChanges env editSession r' force ?w0 = (res, w1)"
    by (cases "generateChanges env editSession r' force ?w0")
  have gf: "fst (generateChanges env editSession r' force w) = res"
    using generateChanges_files [of ?w0 w env editSession r' force] g0 by simp
  have r0: "reports w ?w0" by (simp add: reports_emit)
  from generateChangesLoop_unmatched [OF assms(2) assms(3) r0, of "([], [])"] g0
  have alt: "(\<exists>e. res = Inl e)
     \<or> (res = Inr ([], []) \<and> (\<exists>evs. trace w1 = trace w @ evs @ [?skip] \<and> list_all is_report evs))"
    by (simp add: generateChanges_def)
  have "quiet ?w0 w1" using generateChanges_quiet [of ?w0 env editSession r' force] g0 by simp
  then have q1: "quiet w w1"
    by (rule quiet_emit_left [of "LogInfo ''Resuming edit session''", rotated]) simp
  have quiet: "quiet w (resumeEditSession env r silent force w)"
  proof (cases "workbenchState env = EMPTY \<or> (silent \<and> \<not> initialize env)
      \<or> version editSession > EditSessionSchemaVersion env")
    case True
    with assms(1) show ?thesis by (intro resume_early) blast
  next
    case False
    then have ok: "workbenchState env \<noteq> EMPTY" "silent \<longrightarrow> initialize env"
      "\<not> version editSession > EditSessionSchemaVersion env" by auto
    note body = resume_reaches_body [OF ok(1) ok(2) assms(1) ok(3), of force]
    from alt show ?thesis
    proof
      assume "\<exists>e. res = Inl e"
      then obtain e where "res = Inl e" by blast
      with g0 have "resumeBody env editSession r' force ?w0 = (Some e, w1)"
        by (simp add: resumeBody_generate_fails)
      with body q1 show ?thesis by (simp add: quiet_emit)
    next
      assume "res = Inr ([], []) \<and> (\<exists>evs. trace w1 = trace w @ evs @ [?skip] \<and> list_all is_report evs)"
      with g0 have "generateChanges env editSession r' force ?w0 = (Inr ([], []), w1)" by simp
      from resumeBody_shape [OF this] body q1 show ?thesis by simp
    qed
  qed
  have skip: "list_all is_report (newEvents w (resumeEditSession env r silent force w))
          \<and> last (newEvents w (resumeEditSession env r silent force w)) = ?skip"
    if ok: "workbenchState env \<noteq> EMPTY" "silent \<longrightarrow> initialize env"
      "\<not> version editSession > EditSessionSchemaVersion env"
      and empty: "fst (generateChanges env editSession r' force w) = Inr ([], [])"
  proof -
    note body = resume_reaches_body [OF ok(1) ok(2) assms(1) ok(3), of force]
    from empty gf have res: "res = Inr ([], [])" by simp
    with alt obtain evs where t1: "trace w1 = trace w @ evs @ [?skip]" and rep: "list_all is_report evs"
      by auto
    from g0 res have "generateChanges env editSession r' force ?w0 = (Inr ([], []), w1)" by simp
    from resumeBody_shape [OF this] body have "resumeEditSession env r silent force w = w1" by simp
    with t1 have "newEvents w (resumeEditSession env r silent force w) = evs @ [?skip]"
      by (intro newEvents_append) simp
    with rep show ?thesis by simp
  qed
  have "(\<exists>e. fst (generateChanges env editSession r' force w) = Inl e)
        \<or> fst (generateChanges env editSession r' force w) = Inr ([], [])"
    using alt gf by blast
  with quiet_files [OF quiet] quiet_sessions [OF quiet] quiet_newEvents [OF quiet] skip
  show ?thesis by blast
qed

theorem unmatched_folder_applies_nothing_witness:
  "store_read
     (exampleWorld\<lparr>sessions := [(''r0'', exampleSession\<lparr>folders := folders exampleSession @
        [\<lparr>name = ''q'', canonicalIdentity = None, workingChanges = []\<rparr>]\<rparr>)]\<rparr>) None
     = Some (exampleSession\<lparr>folders := folders exampleSession @
        [\<lparr>name = ''q'', canonicalIdentity = None, workingChanges = []\<rparr>]\<rparr>, ''r0'')
   \<and> fst (findFolderRoot exampleServices ''r0'' False
          \<lparr>name = ''q'', canonicalIdentity = None, workingChanges = []\<rparr>
          (exampleWorld\<lparr>sessions := [(''r0'', exampleSession\<lparr>folders := folders exampleSession @
             [\<lparr>name = ''q'', canonicalIdentity = None, workingChanges = []\<rparr>]\<rparr>)]\<rparr>)) = None
   \<and> fst (generateChanges exampleServices
            (exampleSession\<lparr>folders := folders exampleSession @
               [\<lparr>name = ''q'', canonicalIdentity = None, workingChanges = []\<rparr>]\<rparr>)
            ''r0'' False
            (exampleWorld\<lparr>sessions := [(''r0'', exampleSession\<lparr>folders := folders exampleSession @
               [\<lparr>name = ''q'', canonicalIdentity = None, workingChanges = []\<rparr>]\<rparr>)]\<rparr>))
       = Inr ([], [])
   \<and> files (resumeEditSession exampleServices None False False
        (exampleWorld\<lparr>sessions := [(''r0'', exampleSession\<lparr>folders := folders exampleSession @
           [\<lparr>name = ''q'', canonicalIdentity = None, workingChanges = []\<rparr>]\<rparr>)]\<rparr>))
       = files exampleWorld
   \<and> sessions (resumeEditSession exampleServices None False False
        (exampleWorld\<lparr>sessions := [(''r0'', exampleSession\<lparr>folders := folders exampleSession @
           [\<lparr>name = ''q'', canonicalIdentity = None, workingChanges = []\<rparr>]\<rparr>)]\<rparr>))
       = [(''r0'', exampleSession\<lparr>folders := folders exampleSession @
           [\<lparr>name = ''q'', canonicalIdentity = None, workingChanges = []\<rparr>]\<rparr>)]
   \<and> last (newEvents
        (exampleWorld\<lparr>sessions := [(''r0'', exampleSession\<lparr>folders := folders exampleSession @
           [\<lparr>name = ''q'', canonicalIdentity = None, workingChanges = []\<rparr>]\<rparr>)]\<rparr>)
        (resumeEditSession exampleServices None False False
           (exampleWorld\<lparr>sessions := [(''r0'', exampleSession\<lparr>folders := folders exampleSession @
              [\<lparr>name = ''q'', canonicalIdentity = None, workingChanges = []\<rparr>]\<rparr>)]\<rparr>)))
       = LogInfo ''Skipping applying changes as no matching workspace folder was found''"
proof -
  let ?q = "\<lparr>name = ''q'', canonicalIdentity = None, workingChanges = []\<rparr>"
  let ?s = "exampleSession\<lparr>folders := folders exampleSession @ [?q]\<rparr>"
  let ?w = "exampleWorld\<lparr>sessions := [(''r0'', ?s)]\<rparr>"
  have rd: "store_read ?w None = Some (?s, ''r0'')" by (simp add: store_read_def)
  have mem: "?q \<in> set (folders ?s)" by simp
  have nf: "fst (findFolderRoot exampleServices ''r0'' False ?q ?w) = None"
    by (simp add: findFolderRoot_def example_defs)
  have g: "fst (generateChanges exampleServices ?s ''r0'' False ?w) = Inr ([], [])"
    by (simp add: generate_defs example_defs)
  have ok: "workbenchState exampleServices \<noteq> EMPTY"
    "\<not> version ?s > EditSessionSchemaVersion exampleServices"
    by (simp_all add: example_defs)
  from unmatched_folder_applies_nothing [OF rd mem nf, of False] rd nf g ok
  show ?thesis by (simp add: exampleWorld_def)
qed

section \<open>The changes that storeEditSession collects\<close>

text \<open>
  C8 asks that a resource URI that appears in more than one resource group of a
  repository contributes exactly one change. \<open>getChangedResources\<close> collects the
  \<^verbatim>\<open>sourceUri\<close> objects in a \<^verbatim>\<open>Set<URI>\<close>, which keeps one entry per object
  (\<open>getChangedResources_distinct\<close>), not per URI. In the example the two groups hold
  two URI objects for the same file \<^verbatim>\<open>/p/a\<close>, and the stored folder has two additions
  for \<^verbatim>\<open>a\<close>.
\<close>

theorem storeEditSession_duplicate_for_equal_uris:
  "uriObject exampleServices 0 = uriObject exampleServices 1
   \<and> map groups (repositories exampleServices) = [[[0], [1]]]
   \<and> fst (storeEditSession exampleServices True exampleWorld) = Inr (Some ''r1'')
   \<and> map_of (sessions (snd (storeEditSession exampleServices True exampleWorld))) ''r1''
       = Some \<lparr>version = 2,
               folders =
                 [\<lparr>name = ''p'', canonicalIdentity = None,
                   workingChanges =
                     [\<lparr>type = Addition, fileType = File, relativeFilePath = ''a'',
                       contents = Some ''old''\<rparr>,
                      \<lparr>type = Addition, fileType = File, relativeFilePath = ''a'',
                       contents = Some ''old''\<rparr>]\<rparr>]\<rparr>"
  by (simp add: store_defs example_defs)

text \<open>
  C9: every change of a session that \<open>storeEditSession\<close> has written to the store
  satisfies the invariant of the data model: its contents are present if and only if its
  type is \<^verbatim>\<open>Addition\<close>. Its type is \<^verbatim>\<open>Addition\<close> or \<^verbatim>\<open>Deletion\<close>; a deletion has no
  contents; the contents of an addition are the base64 encoding of the contents of a
  regular file on disk (after the editors were saved).
\<close>

theorem stored_changes_satisfy_invariant:
  assumes "storeEditSession env fromStoreCommand w = (Inr (Some r), w')"
  shows "\<exists>fds. sessions w' = (r, \<lparr>version = 2, folders = fds\<rparr>) # sessions w
     \<and> (\<forall>folder \<in> set fds. \<forall>c \<in> set (workingChanges folder).
           changeInvariant c
           \<and> (type c = Addition \<or> type c = Deletion)
           \<and> (type c = Deletion \<longrightarrow> contents c = None)
           \<and> (type c = Addition \<longrightarrow>
                (\<exists>u v. saveAll env (files w) u = Some (RegularFile v)
                       \<and> contents c = Some (encodeBase64 env v))))"
proof -
  let ?w0 = "w\<lparr>files := saveAll env (files w)\<rparr>"
  let ?fs = "saveAll env (files w)"
  obtain res w1 where rl: "repositoriesLoop env (repositories env) ([], False) ?w0 = (res, w1)"
    by (cases "repositoriesLoop env (repositories env) ([], False) ?w0")
  from assms rl obtain fds he where res: "res = Inr (fds, he)"
    by (cases res) (auto simp: storeEditSession_def)
  from rl res have rl': "repositoriesLoop env (repositories env) ([], False) ?w0 = (Inr (fds, he), w1)"
    by simp
  have "?fs = files ?w0" by simp
  from repositoriesLoop_stored [OF rl' this]
  have inv: "list_all (\<lambda>folder. list_all (storedFrom env ?fs) (workingChanges folder)) fds"
    and s1: "sessions w1 = sessions w" by simp_all
  from assms rl' have "sessions w' = (r, \<lparr>version = 2, folders = fds\<rparr>) # sessions w1"
    by (auto simp: storeEditSession_def Let_def split: if_splits sum.splits)
  with s1 have ss: "sessions w' = (r, \<lparr>version = 2, folders = fds\<rparr>) # sessions w" by simp
  have st: "\<forall>folder \<in> set fds. \<forall>c \<in> set (workingChanges folder). storedFrom env ?fs c"
    using inv by (simp add: list_all_iff)
  have "\<forall>folder \<in> set fds. \<forall>c \<in> set (workingChanges folder).
           changeInvariant c
           \<and> (type c = Addition \<or> type c = Deletion)
           \<and> (type c = Deletion \<longrightarrow> contents c = None)
           \<and> (type c = Addition \<longrightarrow>
                (\<exists>u v. ?fs u = Some (RegularFile v)
                       \<and> contents c = Some (encodeBase64 env v)))"
  proof (intro ballI)
    fix folder c
    assume "folder \<in> set fds" "c \<in> set (workingChanges folder)"
    with st have "storedFrom env ?fs c" by blast
    then show "changeInvariant c
           \<and> (type c = Addition \<or> type c = Deletion)
           \<and> (type c = Deletion \<longrightarrow> contents c = None)
           \<and> (type c = Addition \<longrightarrow>
                (\<exists>u v. ?fs u = Some (RegularFile v)
                       \<and> contents c = Some (encodeBase64 env v)))"
      by (rule storedFrom_props)
  qed
  with ss show ?thesis by blast
qed

theorem stored_changes_satisfy_invariant_witness:
  "fst (storeEditSession (exampleServices\<lparr>uriObject := \<lambda>a. if a = 0 then ''/p/a'' else ''/p/b''\<rparr>)
          True exampleWorld) = Inr (Some ''r1'')
   \<and> sessions (snd (storeEditSession
         (exampleServices\<lparr>uriObject := \<lambda>a. if a = 0 then ''/p/a'' else ''/p/b''\<rparr>)
         True exampleWorld))
       = (''r1'',
          \<lparr>version = 2,
           folders =
             [\<lparr>name = ''p'', canonicalIdentity = None,
               workingChanges =
                 [\<lparr>type = Addition, fileType = File, relativeFilePath = ''a'',
                   contents = Some ''old''\<rparr>,
                  \<lparr>type = Deletion, fileType = File, relativeFilePath = ''b'',
                   contents = None\<rparr>]\<rparr>]\<rparr>) # sessions exampleWorld
   \<and> changeInvariant
        \<lparr>type = Addition, fileType = File, relativeFilePath = ''a'', contents = Some ''old''\<rparr>
   \<and> changeInvariant
        \<lparr>type = Deletion, fileType = File, relativeFilePath = ''b'', contents = None\<rparr>"
proof -
  let ?env = "exampleServices\<lparr>uriObject := \<lambda>a. if a = 0 then ''/p/a'' else ''/p/b''\<rparr>"
  let ?a = "\<lparr>type = Addition, fileType = File, relativeFilePath = ''a'', contents = Some ''old''\<rparr>"
  let ?d = "\<lparr>type = Deletion, fileType = File, relativeFilePath = ''b'', contents = None\<rparr>"
  let ?fds = "[\<lparr>name = ''p'', canonicalIdentity = None, workingChanges = [?a, ?d]\<rparr>]"
  have ev: "fst (storeEditSession ?env True exampleWorld) = Inr (Some ''r1'')"
    by (simp add: store_defs example_defs)
  have ss: "sessions (snd (storeEditSession ?env True exampleWorld))
      = (''r1'', \<lparr>version = 2, folders = ?fds\<rparr>) # sessions exampleWorld"
    by (simp add: store_defs example_defs)
  have run: "storeEditSession ?env True exampleWorld
      = (Inr (Some ''r1''), snd (storeEditSession ?env True exampleWorld))"
    using ev by (metis prod.collapse)
  from stored_changes_satisfy_invariant [OF run]
  obtain fds where a: "sessions (snd (storeEditSession ?env True exampleWorld))
        = (''r1'', \<lparr>version = 2, folders = fds\<rparr>) # sessions exampleWorld"
    and b: "\<forall>folder \<in> set fds. \<forall>c \<in> set (workingChanges folder). changeInvariant c"
    by blast
  from a ss have "fds = ?fds" by simp
  with b have "changeInvariant ?a \<and> changeInvariant ?d" by simp
  with ev ss show ?thesis by simp
qed

section \<open>The conflicting changes are among the resolved changes\<close>

text \<open>
  C10: whenever \<open>generateChanges\<close> returns, the list of conflicting changes is a
  subsequence of the list of resolved changes: every conflicting change, with the same
  URI, type and contents, is one of the resolved changes, in the same order.
\<close>

theorem conflictingChanges_subseq_changes:
  "generateChanges env editSession r force w = (Inr (changes, conflictingChanges), w')
     \<Longrightarrow> subseq conflictingChanges changes \<and> set conflictingChanges \<subseteq> set changes"
  using generateChanges_subseq [of env editSession r force w changes conflictingChanges]
  by (auto dest: list_emb_set)

theorem conflictingChanges_subseq_changes_witness:
  "generateChanges exampleServices
     (exampleSession\<lparr>folders :=
        [\<lparr>name = ''p'', canonicalIdentity = None,
          workingChanges = [exampleChange\<lparr>relativeFilePath := ''b''\<rparr>, exampleChange]\<rparr>]\<rparr>)
     ''r0'' False exampleWorld
     = (Inr ([(''/p/b'', Addition, Some ''new''), (''/p/a'', Addition, Some ''new'')],
             [(''/p/a'', Addition, Some ''new'')]), exampleWorld)
   \<and> subseq [(''/p/a'', Addition, Some ''new'')]
        [(''/p/b'', Addition, Some ''new''), (''/p/a'', Addition, Some ''new'')]
   \<and> set [(''/p/a'', Addition, Some ''new'')]
        \<subseteq> set [(''/p/b'', Addition, Some ''new''), (''/p/a'', Addition, Some (''new''::string))]"
proof -
  have g: "generateChanges exampleServices
     (exampleSession\<lparr>folders :=
        [\<lparr>name = ''p'', canonicalIdentity = None,
          workingChanges = [exampleChange\<lparr>relativeFilePath := ''b''\<rparr>, exampleChange]\<rparr>]\<rparr>)
     ''r0'' False exampleWorld
     = (Inr ([(''/p/b'', Addition, Some ''new''), (''/p/a'', Addition, Some ''new'')],
             [(''/p/a'', Addition, Some ''new'')]), exampleWorld)"
    by (simp add: generate_defs example_defs)
  from conflictingChanges_subseq_changes [OF g] g show ?thesis
    by blast
qed

end
